theory Spec2Isabelle
  imports Main "HOL-Library.AList"
begin

section \<open>Strings\<close>

text \<open>
  A JavaScript string is modelled as a \<^typ>\<open>string\<close>, one \<^typ>\<open>char\<close> per code unit, so the
  model covers the code units \<open>0..255\<close>.  Offsets (\<open>match.index\<close>, \<open>slice\<close>) are list positions.
\<close>

definition LF :: char where "LF = CHR 0x0A"
definition CR :: char where "CR = CHR 0x0D"

text \<open>The class \<open>\s\<close>, which is also what \<open>String.prototype.trim\<close> removes: TAB, LF, VT, FF,
  CR, SPACE and NBSP.\<close>

definition white_space :: "char list" where
  "white_space = [CHR 0x09, CHR 0x0A, CHR 0x0B, CHR 0x0C, CHR 0x0D, CHR 0x20, CHR 0xA0]"

definition lower_letters :: "char list" where
  "lower_letters = ''abcdefghijklmnopqrstuvwxyz''"

definition upper_letters :: "char list" where
  "upper_letters = ''ABCDEFGHIJKLMNOPQRSTUVWXYZ''"

definition digits :: "char list" where
  "digits = ''0123456789''"

text \<open>The class \<open>\w\<close>.\<close>

definition word_chars :: "char list" where
  "word_chars = lower_letters @ upper_letters @ digits @ ''_''"

definition trim :: "string \<Rightarrow> string" where
  "trim s = rev (dropWhile (\<lambda>c. c \<in> set white_space) (rev (dropWhile (\<lambda>c. c \<in> set white_space) s)))"

text \<open>\<open>s.slice(a, b)\<close> for offsets \<open>0 \<le> a\<close>, \<open>0 \<le> b\<close>: empty when \<open>b \<le> a\<close>.\<close>

definition slice :: "string \<Rightarrow> nat \<Rightarrow> nat \<Rightarrow> string" where
  "slice s a b = take (b - a) (drop a s)"

section \<open>Regular expressions with backtracking\<close>

text \<open>
  The regular expressions of the source are kept as syntax trees and run by one matcher
  that follows the backtracking order of ECMAScript: alternatives left to right, a greedy
  star tries one more iteration before stopping, a lazy star stops before trying one more,
  and an iteration of a star that consumes nothing is rejected.
\<close>

datatype rx =
    Cls "char list"
  | NCls "char list"
  | Eps
  | Seq rx rx
  | Alt rx rx
  | Star rx
  | Lazy rx
  | Grp nat rx
  | Bref nat
  | NotAhead rx
  | Bol bool
  | Eol bool

type_synonym caps = "(nat \<times> nat \<times> nat) list"

type_synonym mstate = "nat \<times> caps"

text \<open>\<open>ms s r (i, c)\<close> lists every way \<open>r\<close> can match \<open>s\<close> from offset \<open>i\<close> with the captures
  \<open>c\<close>, as (end offset, captures), in the order the backtracking matcher tries them.\<close>

function ms :: "string \<Rightarrow> rx \<Rightarrow> mstate \<Rightarrow> mstate list" where
  "ms s (Cls cs) (i, c) = (if i < length s \<and> s ! i \<in> set cs then [(Suc i, c)] else [])"
| "ms s (NCls cs) (i, c) = (if i < length s \<and> s ! i \<notin> set cs then [(Suc i, c)] else [])"
| "ms s Eps (i, c) = [(i, c)]"
| "ms s (Seq a b) (i, c) = concat (map (ms s b) (ms s a (i, c)))"
| "ms s (Alt a b) (i, c) = ms s a (i, c) @ ms s b (i, c)"
| "ms s (Star r) (i, c) =
     concat (map (ms s (Star r)) (filter (\<lambda>(j, _). i < j \<and> j \<le> length s) (ms s r (i, c))))
     @ [(i, c)]"
| "ms s (Lazy r) (i, c) =
     (i, c) #
     concat (map (ms s (Lazy r)) (filter (\<lambda>(j, _). i < j \<and> j \<le> length s) (ms s r (i, c))))"
| "ms s (Grp n r) (i, c) = map (\<lambda>(j, c'). (j, AList.update n (i, j) c')) (ms s r (i, c))"
| "ms s (Bref n) (i, c) =
     (case map_of c n of
        None \<Rightarrow> [(i, c)]
      | Some (a, b) \<Rightarrow>
          if slice s i (i + (b - a)) = slice s a b \<and> i + (b - a) \<le> length s
          then [(i + (b - a), c)] else [])"
| "ms s (NotAhead r) (i, c) = (if ms s r (i, c) = [] then [(i, c)] else [])"
| "ms s (Bol m) (i, c) =
     (if i = 0 \<or> (m \<and> i \<le> length s \<and> s ! (i - 1) \<in> {LF, CR}) then [(i, c)] else [])"
| "ms s (Eol m) (i, c) =
     (if i = length s \<or> (m \<and> i < length s \<and> s ! i \<in> {LF, CR}) then [(i, c)] else [])"
  by pat_completeness auto
termination
  by (relation "inv_image (less_than <*lex*> less_than) (\<lambda>(s, r, (i, c)). (size r, length s - i))")
     auto

declare ms.simps(6) [simp del] ms.simps(7) [simp del]

definition seqs :: "rx list \<Rightarrow> rx" where
  "seqs rs = foldr Seq rs Eps"

definition lit :: "string \<Rightarrow> rx" where
  "lit s = seqs (map (\<lambda>c. Cls [c]) s)"

text \<open>\<open>r?\<close>, \<open>r+\<close>, \<open>r{n,}\<close> and \<open>r{0,n}\<close> (all greedy).\<close>

definition rx_opt :: "rx \<Rightarrow> rx" where
  "rx_opt r = Alt r Eps"

definition rx_plus :: "rx \<Rightarrow> rx" where
  "rx_plus r = Seq r (Star r)"

fun rx_atleast :: "nat \<Rightarrow> rx \<Rightarrow> rx" where
  "rx_atleast 0 r = Star r"
| "rx_atleast (Suc n) r = Seq r (rx_atleast n r)"

fun rx_upto :: "nat \<Rightarrow> rx \<Rightarrow> rx" where
  "rx_upto 0 r = Eps"
| "rx_upto (Suc n) r = Alt (Seq r (rx_upto n r)) Eps"

text \<open>\<open>[\s\S]\<close> is any character; \<open>.\<close> is any character but a line terminator.\<close>

definition any_char :: rx where
  "any_char = NCls []"

definition dot :: rx where
  "dot = NCls [LF, CR]"

text \<open>A literal under the \<open>i\<close> flag: an ASCII letter matches in both cases.\<close>

definition ci_class :: "char \<Rightarrow> char list" where
  "ci_class c =
     (case map_of (zip lower_letters upper_letters) c of
        Some u \<Rightarrow> [c, u]
      | None \<Rightarrow>
          (case map_of (zip upper_letters lower_letters) c of
             Some l \<Rightarrow> [c, l]
           | None \<Rightarrow> [c]))"

definition lit_ci :: "string \<Rightarrow> rx" where
  "lit_ci s = seqs (map (\<lambda>c. Cls (ci_class c)) s)"

text \<open>A match is (start offset, end offset, captures).  \<open>rx_exec r s i\<close> is the leftmost match
  starting at offset \<open>i\<close> or later, as \<open>RegExp.prototype.exec\<close> with \<open>lastIndex = i\<close> finds it.\<close>

type_synonym rmatch = "nat \<times> nat \<times> caps"

function rx_exec :: "rx \<Rightarrow> string \<Rightarrow> nat \<Rightarrow> rmatch option" where
  "rx_exec r s i =
     (if length s < i then None
      else case ms s r (i, []) of
             (e, c) # _ \<Rightarrow> Some (i, e, c)
           | [] \<Rightarrow> if i < length s then rx_exec r s (Suc i) else None)"
  by pat_completeness auto
termination
  by (relation "measure (\<lambda>(r, s, i). length s - i)") auto

declare rx_exec.simps [simp del]

definition rx_test :: "rx \<Rightarrow> string \<Rightarrow> bool" where
  "rx_test r s = (rx_exec r s 0 \<noteq> None)"

text \<open>The successive matches of a global regular expression: the next search starts where
  the last match ended, one further after an empty match (as \<open>replace\<close> does; none of the
  expressions the source runs in an \<open>exec\<close> loop can match the empty string).\<close>

function rx_matches :: "rx \<Rightarrow> string \<Rightarrow> nat \<Rightarrow> rmatch list" where
  "rx_matches r s i =
     (case rx_exec r s i of
        None \<Rightarrow> []
      | Some (b, e, c) \<Rightarrow>
          (b, e, c) #
          (let n = (if b < e then e else Suc e)
           in if i < n \<and> n \<le> length s then rx_matches r s n else []))"
  by pat_completeness auto
termination
  by (relation "measure (\<lambda>(r, s, i). Suc (length s) - i)") auto

declare rx_matches.simps [simp del]

text \<open>The text of capture group \<open>n\<close> (empty when the group did not take part).\<close>

definition grp :: "string \<Rightarrow> caps \<Rightarrow> nat \<Rightarrow> string" where
  "grp s c n = (case map_of c n of None \<Rightarrow> [] | Some (a, b) \<Rightarrow> slice s a b)"

text \<open>\<open>s.replace(r, f)\<close> for a global \<open>r\<close>: the text between the matches is kept, each match
  is replaced by what \<open>f\<close> returns for it.\<close>

fun rx_build :: "(rmatch \<Rightarrow> string) \<Rightarrow> string \<Rightarrow> nat \<Rightarrow> rmatch list \<Rightarrow> string" where
  "rx_build f s pos [] = drop pos s"
| "rx_build f s pos ((b, e, c) # rest) = slice s pos b @ f (b, e, c) @ rx_build f s e rest"

definition rx_replace :: "rx \<Rightarrow> (rmatch \<Rightarrow> string) \<Rightarrow> string \<Rightarrow> string" where
  "rx_replace r f s = rx_build f s 0 (rx_matches r s 0)"

section \<open>The markdown transformation\<close>

subsection \<open>Metadata header, links, comments\<close>

text \<open>\<^verbatim>\<open>/^---\r?\n[\s\S]*?\r?\n---\r?\n?/\<close>\<close>

definition frontmatter_rx :: rx where
  "frontmatter_rx =
     seqs [Bol False, lit ''---'', rx_opt (Cls [CR]), Cls [LF], Lazy any_char,
           rx_opt (Cls [CR]), Cls [LF], lit ''---'', rx_opt (Cls [CR]), rx_opt (Cls [LF])]"

definition stripFrontmatter :: "string \<Rightarrow> string" where
  "stripFrontmatter md =
     (case rx_exec frontmatter_rx md 0 of
        Some (b, e, c) \<Rightarrow> drop (e - b) md
      | None \<Rightarrow> md)"

text \<open>\<^verbatim>\<open>/\[\[([^\]|]+)\|([^\]]+)\]\]/g\<close> and \<^verbatim>\<open>/\[\[([^\]]+)\]\]/g\<close>\<close>

definition aliased_link_rx :: rx where
  "aliased_link_rx =
     seqs [lit ''[['', Grp 1 (rx_plus (NCls '']|'')), lit ''|'', Grp 2 (rx_plus (NCls '']'')),
           lit '']]'']"

definition plain_link_rx :: rx where
  "plain_link_rx = seqs [lit ''[['', Grp 1 (rx_plus (NCls '']'')), lit '']]'']"

definition convertWikiLinks :: "string \<Rightarrow> string" where
  "convertWikiLinks md =
     (let md1 = rx_replace aliased_link_rx (\<lambda>(b, e, c). grp md c 2) md
      in rx_replace plain_link_rx (\<lambda>(b, e, c). grp md1 c 1) md1)"

text \<open>\<^verbatim>\<open>/%%[\s\S]*?%%/g\<close>\<close>

definition comment_rx :: rx where
  "comment_rx = seqs [lit ''%%'', Lazy any_char, lit ''%%'']"

definition stripComments :: "string \<Rightarrow> string" where
  "stripComments md = rx_replace comment_rx (\<lambda>m. []) md"

subsection \<open>Tags\<close>

text \<open>\<^verbatim>\<open>/(^|\s)#(?!#|\s)([\w/-]+)/gm\<close> and the heading test \<^verbatim>\<open>/^#{0,6}$/\<close>\<close>

definition tag_rx :: rx where
  "tag_rx =
     seqs [Grp 1 (Alt (Bol True) (Cls white_space)), lit ''#'',
           NotAhead (Alt (lit ''#'') (Cls white_space)),
           Grp 2 (rx_plus (Cls (word_chars @ ''/-'')))]"

definition hashes_rx :: rx where
  "hashes_rx = seqs [Bol False, rx_upto 6 (Cls ''#''), Eol False]"

text \<open>\<open>str.lastIndexOf(c, k)\<close> for \<open>0 \<le> k\<close>: the last offset \<open>\<le> k\<close> holding \<open>c\<close>.\<close>

fun lastIndexOf :: "string \<Rightarrow> char \<Rightarrow> nat \<Rightarrow> nat option" where
  "lastIndexOf s c 0 = (if 0 < length s \<and> s ! 0 = c then Some 0 else None)"
| "lastIndexOf s c (Suc k) =
     (if Suc k < length s \<and> s ! Suc k = c then Some (Suc k) else lastIndexOf s c k)"

text \<open>The replacement callback of \<open>stripTags\<close>.  \<open>offset - 1\<close> is \<open>-1\<close> for a match at offset 0,
  which \<open>lastIndexOf\<close> clamps to 0, as the truncating subtraction does; a result of \<open>-1\<close> plus one
  is the line start 0.\<close>

definition tag_callback :: "string \<Rightarrow> rmatch \<Rightarrow> string" where
  "tag_callback str = (\<lambda>(offset, e, c).
     let prefix = grp str c 1;
         lineStart = (case lastIndexOf str LF (offset - 1) of None \<Rightarrow> 0 | Some k \<Rightarrow> k + 1);
         beforeOnLine = slice str lineStart (offset + length prefix)
     in if rx_test hashes_rx (trim beforeOnLine) \<and> length (trim beforeOnLine) > 0
        then slice str offset e
        else prefix)"

definition stripTags :: "string \<Rightarrow> string" where
  "stripTags md = rx_replace tag_rx (tag_callback md) md"


subsection \<open>The remote service and the host\<close>

text \<open>
  What the functions of \<^verbatim>\<open>api.ts\<close> do is decided by the remote service.  Each is modelled by
  its outcome: the value it resolves to, or what it throws.  The service has a state of its
  own (\<open>'srv\<close>), so that two calls with the same arguments can end differently.
\<close>

datatype thrown = JsError string | NonError

record PublishResponse =
  r_slug :: string
  r_url :: string
  r_title :: string
  r_expiresAt :: "string option"
  r_ttlDays :: "int option"
  r_created :: bool
  r_editToken :: "string option"

record ClaimResponse =
  c_ok :: bool
  c_slug :: string
  c_url :: string
  c_expiresAt :: "string option"
  c_ttlDays :: "int option"

record DocumentListItem =
  i_slug :: string
  i_title :: string
  i_url :: string
  i_source :: string
  i_updatedAt :: string
  i_expiresAt :: string

record DocumentListResponse =
  l_documents :: "DocumentListItem list"
  l_isPro :: "bool option"

record 'srv api =
  publishNote :: "string \<Rightarrow> string \<Rightarrow> string \<Rightarrow> string option \<Rightarrow> 'srv \<Rightarrow> (thrown + PublishResponse) \<times> 'srv"
  trialPublish :: "string \<Rightarrow> string \<Rightarrow> string \<Rightarrow> string option \<Rightarrow> string option \<Rightarrow> 'srv
                   \<Rightarrow> (thrown + PublishResponse) \<times> 'srv"
  listDocuments :: "string \<Rightarrow> 'srv \<Rightarrow> (thrown + DocumentListResponse) \<times> 'srv"
  claimDocument :: "string \<Rightarrow> string \<Rightarrow> string \<Rightarrow> 'srv \<Rightarrow> (thrown + ClaimResponse) \<times> 'srv"
  uploadImage :: "string \<Rightarrow> string \<Rightarrow> string \<Rightarrow> string \<Rightarrow> 'srv \<Rightarrow> (thrown + string) \<times> 'srv"

text \<open>A call of the remote service, with its arguments, and what came back.\<close>

datatype call =
    PublishNote string string string "string option"
  | TrialPublish string string string "string option" "string option"
  | ListDocuments string
  | ClaimDocument string string string
  | UploadImage string string string string

datatype reply =
    PublishReply "thrown + PublishResponse"
  | ListReply "thrown + DocumentListResponse"
  | ClaimReply "thrown + ClaimResponse"
  | UploadReply "thrown + string"

text \<open>
  The notices shown to the user: \<open>Progress a\<close> is \<^verbatim>\<open>JotBird: ${a}...\<close>; \<open>Done verb copied trial\<close>
  is the success notice of a publish (the verb, whether the link was copied, and whether the
  30-day hint of the anonymous path is added); \<open>Failed m\<close> is \<^verbatim>\<open>JotBird: ${m}\<close>; \<open>ProUpdated n\<close>
  and \<open>Linked n\<close> are the notices of the two sweeps; \<open>Welcome\<close> and \<open>NotDetected\<close> are those of
  the upgrade callback.
\<close>

datatype notice =
    Progress string
  | Done string bool bool
  | Failed string
  | ProUpdated nat
  | Linked nat
  | Welcome
  | NotDetected

text \<open>What a run does to the outside, in order.  \<open>Sweep x\<close> marks an entry into
  \<open>refreshProExpiration\<close> with \<open>excludePath = x\<close>; \<open>FrontMatter p\<close> a call of
  \<open>processFrontMatter\<close> on the document at \<open>p\<close>.\<close>

datatype event =
    Api call reply
  | Notice notice
  | FrontMatter string
  | Sweep string
  | Clipboard string

record TFile =
  f_path :: string
  f_name :: string
  f_basename :: string
  f_extension :: string

datatype abstract_file = AFile TFile | AFolder string

text \<open>What the vault holds at a path: a file (with its name, base name and extension) or a
  folder.\<close>

datatype entry = FileEntry string string string | FolderEntry

record JotBirdSettings =
  apiKey :: string
  stripTags_enabled :: bool
  autoCopyLink :: bool
  storeFrontmatter :: bool

record PublishedNote =
  n_slug :: string
  n_url :: string
  n_editToken :: "string option"
  n_publishedAt :: string

record PluginData =
  d_settings :: JotBirdSettings
  d_publishedNotes :: "(string \<times> PublishedNote) list"
  d_deviceFingerprint :: string
  d_proRefreshDone :: "bool option"

text \<open>
  The host and the service, as the plugin sees them: the text and the bytes behind a path
  (or what reading throws), the files \<open>vault.getFiles()\<close> enumerates,
  what is at each path (for \<open>getAbstractFileByPath\<close>), the metadata header of each document as an ordered list of
  keys and values, the documents on which \<open>processFrontMatter\<close> fails, the clock, and the
  data last given to \<open>saveData\<close>.
\<close>

record 'srv world =
  srv :: 'srv
  trace :: "event list"
  contents :: "string \<Rightarrow> thrown + string"
  binaries :: "string \<Rightarrow> thrown + string"
  vault_files :: "TFile list"
  entries :: "string \<Rightarrow> entry option"
  frontmatter :: "string \<Rightarrow> (string \<times> string) list"
  frontmatter_fails :: "string \<Rightarrow> bool"
  clock :: string
  persisted :: "PluginData option"

definition getAbstractFileByPath :: "'srv world \<Rightarrow> string \<Rightarrow> abstract_file option" where
  "getAbstractFileByPath w filePath =
     (case entries w filePath of
        None \<Rightarrow> None
      | Some FolderEntry \<Rightarrow> Some (AFolder filePath)
      | Some (FileEntry name basename extension) \<Rightarrow>
          Some (AFile \<lparr>f_path = filePath, f_name = name, f_basename = basename,
                       f_extension = extension\<rparr>))"

definition emit :: "event \<Rightarrow> 'srv world \<Rightarrow> 'srv world" where
  "emit ev w = w\<lparr>trace := trace w @ [ev]\<rparr>"

definition call_uploadImage ::
  "'srv api \<Rightarrow> string \<Rightarrow> string \<Rightarrow> string \<Rightarrow> string \<Rightarrow> 'srv world \<Rightarrow> (thrown + string) \<times> 'srv world" where
  "call_uploadImage a key data filename mime w =
     (let (res, s') = uploadImage a key data filename mime (srv w)
      in (res, emit (Api (UploadImage key data filename mime) (UploadReply res)) (w\<lparr>srv := s'\<rparr>)))"

subsection \<open>Images\<close>

text \<open>\<^verbatim>\<open>/^(`{3,}|~{3,}).*\n[\s\S]*?\n\1\s*$/gm\<close> and \<^verbatim>\<open>/`[^`\n]+`/g\<close>\<close>

definition fenced_rx :: rx where
  "fenced_rx =
     seqs [Bol True, Grp 1 (Alt (rx_atleast 3 (Cls ''`'')) (rx_atleast 3 (Cls ''~''))),
           Star dot, Cls [LF], Lazy any_char, Cls [LF], Bref 1, Star (Cls white_space), Eol True]"

definition inline_rx :: rx where
  "inline_rx = seqs [lit ''`'', rx_plus (NCls [CHR ''`'', LF]), lit ''`'']"

definition buildCodeRegions :: "string \<Rightarrow> (nat \<times> nat) list" where
  "buildCodeRegions md =
     map (\<lambda>(b, e, c). (b, e)) (rx_matches fenced_rx md 0)
     @ map (\<lambda>(b, e, c). (b, e)) (rx_matches inline_rx md 0)"

definition isInsideCode :: "nat \<Rightarrow> (nat \<times> nat) list \<Rightarrow> bool" where
  "isInsideCode offset regions = list_ex (\<lambda>(st, en). st \<le> offset \<and> offset < en) regions"

text \<open>\<^verbatim>\<open>/\.(png|jpe?g|gif|webp|svg)$/i\<close>\<close>

definition imageExtensions :: rx where
  "imageExtensions =
     seqs [lit ''.'',
           Grp 1 (Alt (lit_ci ''png'')
                 (Alt (seqs [lit_ci ''jp'', rx_opt (lit_ci ''e''), lit_ci ''g''])
                 (Alt (lit_ci ''gif'') (Alt (lit_ci ''webp'') (lit_ci ''svg''))))),
           Eol False]"

text \<open>\<^verbatim>\<open>/!\[\[([^\]|]+(?:\.[a-zA-Z]+))(?:\|[^\]]*)?\]\]/g\<close> and
  \<^verbatim>\<open>/!\[([^\]]*)\]\((?!https?:\/\/)([^)]+)\)/g\<close>\<close>

definition wikiImageRegex :: rx where
  "wikiImageRegex =
     seqs [lit ''![['',
           Grp 1 (seqs [rx_plus (NCls '']|''), lit ''.'', rx_plus (Cls (lower_letters @ upper_letters))]),
           rx_opt (seqs [lit ''|'', Star (NCls '']'')]),
           lit '']]'']"

definition mdImageRegex :: rx where
  "mdImageRegex =
     seqs [lit ''!['', Grp 1 (Star (NCls '']'')), lit ''](''  ,
           NotAhead (seqs [lit ''http'', rx_opt (lit ''s''), lit ''://'']),
           Grp 2 (rx_plus (NCls '')'')), lit '')'']"

definition toLowerCase :: "string \<Rightarrow> string" where
  "toLowerCase s = map (\<lambda>c. case map_of (zip upper_letters lower_letters) c of Some l \<Rightarrow> l | None \<Rightarrow> c) s"

text \<open>The read \<open>map[ext.toLowerCase()]\<close> on the object literal also finds what the literal
  inherits from \<open>Object.prototype\<close>.  Of the names of its members only \<open>constructor\<close> and
  \<open>__proto__\<close> are in lower case; for them the read returns the function \<open>Object\<close> and the
  prototype itself, not a string.  The value is used in one place, the template that builds
  the \<open>Content-Type\<close> line of the upload, and the model keeps the text that template makes
  of it.\<close>

definition getMimeType :: "string \<Rightarrow> string option" where
  "getMimeType ext =
     (case map_of [(''png'', ''image/png''), (''jpg'', ''image/jpeg''), (''jpeg'', ''image/jpeg''),
                   (''gif'', ''image/gif''), (''webp'', ''image/webp''), (''svg'', ''image/svg+xml'')]
             (toLowerCase ext) of
        Some mimeType \<Rightarrow> Some mimeType
      | None \<Rightarrow>
          if toLowerCase ext = ''constructor'' then Some ''function Object() { [native code] }''
          else if toLowerCase ext = ''__proto__'' then Some ''[object Object]''
          else None)"

definition endsWith :: "string \<Rightarrow> string \<Rightarrow> bool" where
  "endsWith s t = (length t \<le> length s \<and> drop (length s - length t) s = t)"

definition startsWith :: "string \<Rightarrow> string \<Rightarrow> bool" where
  "startsWith s t = (take (length t) s = t)"

text \<open>The argument of \<open>find\<close> in \<open>resolveAndUploadImage\<close>, and the \<open>find\<close> itself.\<close>

definition resolves :: "string \<Rightarrow> TFile \<Rightarrow> bool" where
  "resolves fileName f =
     (f_path f = fileName \<or> f_name f = fileName \<or> endsWith (f_path f) (''/'' @ fileName))"

definition resolveFile :: "TFile list \<Rightarrow> string \<Rightarrow> TFile option" where
  "resolveFile files fileName = find (resolves fileName) files"

definition resolveAndUploadImage ::
  "'srv api \<Rightarrow> string \<Rightarrow> string \<Rightarrow> 'srv world \<Rightarrow> string option \<times> 'srv world" where
  "resolveAndUploadImage a fileName key w =
     (case resolveFile (vault_files w) fileName of
        None \<Rightarrow> (None, w)
      | Some resolved \<Rightarrow>
          (case binaries w (f_path resolved) of
             Inl _ \<Rightarrow> (None, w)
           | Inr data \<Rightarrow>
               (case getMimeType (f_extension resolved) of
                  None \<Rightarrow> (None, w)
                | Some mimeType \<Rightarrow>
                    (case call_uploadImage a key data (f_name resolved) mimeType w of
                       (Inl _, w') \<Rightarrow> (None, w')
                     | (Inr u, w') \<Rightarrow> (Some u, w')))))"

text \<open>\<open>md.split(original).join(replacement)\<close>.\<close>

function split_join :: "string \<Rightarrow> string \<Rightarrow> string \<Rightarrow> string" where
  "split_join original replacement md =
     (if md = [] then []
      else if original = [] then
        (if tl md = [] then md else hd md # replacement @ split_join original replacement (tl md))
      else if startsWith md original then
        replacement @ split_join original replacement (drop (length original) md)
      else hd md # split_join original replacement (tl md))"
  by pat_completeness auto
termination
  by (relation "measure (\<lambda>(original, replacement, md). length md)") (auto simp: neq_Nil_conv)

declare split_join.simps [simp del]

text \<open>The two scanning loops of \<open>processImages\<close>; each takes the matches in order and
  collects the replacements.\<close>

fun wiki_loop ::
  "'srv api \<Rightarrow> string \<Rightarrow> string \<Rightarrow> (nat \<times> nat) list \<Rightarrow> rmatch list
   \<Rightarrow> (string \<times> string) list \<times> 'srv world \<Rightarrow> (string \<times> string) list \<times> 'srv world" where
  "wiki_loop a key md regions [] (reps, w) = (reps, w)"
| "wiki_loop a key md regions ((b, e, c) # rest) (reps, w) =
     (if isInsideCode b regions then wiki_loop a key md regions rest (reps, w)
      else if \<not> rx_test imageExtensions (grp md c 1) then wiki_loop a key md regions rest (reps, w)
      else case resolveAndUploadImage a (grp md c 1) key w of
             (Some u, w') \<Rightarrow>
               wiki_loop a key md regions rest
                 (if u \<noteq> [] then reps @ [(slice md b e, u)] else reps, w')
           | (None, w') \<Rightarrow> wiki_loop a key md regions rest (reps, w'))"

fun md_loop ::
  "'srv api \<Rightarrow> string \<Rightarrow> string \<Rightarrow> (nat \<times> nat) list \<Rightarrow> rmatch list
   \<Rightarrow> (string \<times> string) list \<times> 'srv world \<Rightarrow> (string \<times> string) list \<times> 'srv world" where
  "md_loop a key md regions [] (reps, w) = (reps, w)"
| "md_loop a key md regions ((b, e, c) # rest) (reps, w) =
     (if isInsideCode b regions then md_loop a key md regions rest (reps, w)
      else if \<not> rx_test imageExtensions (grp md c 2) then md_loop a key md regions rest (reps, w)
      else case resolveAndUploadImage a (grp md c 2) key w of
             (Some u, w') \<Rightarrow>
               md_loop a key md regions rest
                 (if u \<noteq> [] then reps @ [(slice md b e, ''!['' @ grp md c 1 @ '']('' @ u @ '')'')]
                  else reps, w')
           | (None, w') \<Rightarrow> md_loop a key md regions rest (reps, w'))"

fun apply_replacements :: "(string \<times> string) list \<Rightarrow> string \<Rightarrow> string" where
  "apply_replacements [] md = md"
| "apply_replacements ((original, u) # rest) md =
     apply_replacements rest
       (split_join original (if startsWith original ''![['' then ''![]('' @ u @ '')'' else u) md)"

definition processImages :: "'srv api \<Rightarrow> string \<Rightarrow> string \<Rightarrow> 'srv world \<Rightarrow> string \<times> 'srv world" where
  "processImages a md key w =
     (let codeRegions = buildCodeRegions md;
          (reps1, w1) = wiki_loop a key md codeRegions (rx_matches wikiImageRegex md 0) ([], w);
          (reps2, w2) = md_loop a key md codeRegions (rx_matches mdImageRegex md 0) (reps1, w1)
      in (apply_replacements reps2 md, w2))"

subsection \<open>The pipeline and the title\<close>

definition processMarkdown ::
  "'srv api \<Rightarrow> string \<Rightarrow> string \<Rightarrow> bool \<Rightarrow> 'srv world \<Rightarrow> string \<times> 'srv world" where
  "processMarkdown a content key shouldStripTags w =
     (let md0 = stripComments (stripFrontmatter content);
          (md1, w') = processImages a md0 key w;
          md2 = convertWikiLinks md1;
          md3 = (if shouldStripTags then stripTags md2 else md2)
      in (trim md3, w'))"

text \<open>\<^verbatim>\<open>/^---\r?\n[\s\S]*?\r?\n---/\<close>, \<^verbatim>\<open>/^title:\s*(.+)$/m\<close>, \<^verbatim>\<open>/^["']|["']$/g\<close> and
  \<^verbatim>\<open>/^#\s+(.+)$/m\<close>\<close>

definition title_block_rx :: rx where
  "title_block_rx =
     seqs [Bol False, lit ''---'', rx_opt (Cls [CR]), Cls [LF], Lazy any_char,
           rx_opt (Cls [CR]), Cls [LF], lit ''---'']"

definition title_line_rx :: rx where
  "title_line_rx =
     seqs [Bol True, lit ''title:'', Star (Cls white_space), Grp 1 (rx_plus dot), Eol True]"

definition quote_rx :: rx where
  "quote_rx =
     Alt (Seq (Bol False) (Cls [CHR 0x22, CHR 0x27])) (Seq (Cls [CHR 0x22, CHR 0x27]) (Eol False))"

definition h1_rx :: rx where
  "h1_rx = seqs [Bol True, lit ''#'', rx_plus (Cls white_space), Grp 1 (rx_plus dot), Eol True]"

definition frontmatter_title :: "string \<Rightarrow> string option" where
  "frontmatter_title content =
     (case rx_exec title_block_rx content 0 of
        None \<Rightarrow> None
      | Some (b, e, c) \<Rightarrow>
          (case rx_exec title_line_rx (slice content b e) 0 of
             None \<Rightarrow> None
           | Some (b', e', c') \<Rightarrow>
               Some (rx_replace quote_rx (\<lambda>m. []) (trim (grp (slice content b e) c' 1)))))"

definition extractTitle :: "string \<Rightarrow> TFile \<Rightarrow> string" where
  "extractTitle content file =
     (case frontmatter_title content of
        Some t \<Rightarrow> t
      | None \<Rightarrow>
          (case rx_exec h1_rx (stripFrontmatter content) 0 of
             Some (b, e, c) \<Rightarrow> trim (grp (stripFrontmatter content) c 1)
           | None \<Rightarrow> f_basename file))"


section \<open>The plugin\<close>

text \<open>
  The state of one loaded plugin.  \<open>publishedNotes\<close> is a JavaScript object used as a
  dictionary: an association list in the order \<open>Object.entries\<close> enumerates it, where
  assigning to a present key keeps its place and assigning to a new key appends
  (\<^const>\<open>AList.update\<close>), and \<open>delete\<close> removes the key (\<^const>\<open>AList.delete\<close>).
  A path is taken not to be an array index, which a JavaScript object enumerates before
  its other keys.  A read \<open>publishedNotes[path]\<close> also finds the members the object inherits
  from \<open>Object.prototype\<close>; the handlers of the rename and delete notifications, which get
  any path of the vault, are modelled with that (\<open>lookup_note\<close> below).  Publishing is
  reached only for Markdown documents (\<open>getActiveMarkdownFile\<close>, and the file menu for the
  extension \<open>md\<close>), whose path ends in \<open>.md\<close> and is the name of no such member.
  The promise \<open>proCheckInFlight\<close> is not part of the state: the operations below run one
  at a time, each to its end.  \<open>saveData\<close> and the clipboard are taken not to fail.
\<close>

record plugin =
  settings :: JotBirdSettings
  publishedNotes :: "(string \<times> PublishedNote) list"
  deviceFingerprint :: string
  isPro :: bool
  proRefreshDone :: bool

definition DEFAULT_SETTINGS :: JotBirdSettings where
  "DEFAULT_SETTINGS =
     \<lparr>apiKey = [], stripTags_enabled = True, autoCopyLink = True, storeFrontmatter = True\<rparr>"

text \<open>\<open>loadSettings\<close>, on the data \<open>saveData\<close> stored last (or none); \<open>uuid\<close> is what
  \<open>crypto.randomUUID()\<close> would return.\<close>

definition loadSettings :: "string \<Rightarrow> 'srv world \<Rightarrow> plugin" where
  "loadSettings uuid w =
     (case persisted w of
        None \<Rightarrow>
          \<lparr>settings = DEFAULT_SETTINGS, publishedNotes = [], deviceFingerprint = uuid,
           isPro = False, proRefreshDone = False\<rparr>
      | Some d \<Rightarrow>
          \<lparr>settings = d_settings d, publishedNotes = d_publishedNotes d,
           deviceFingerprint = (if d_deviceFingerprint d = [] then uuid else d_deviceFingerprint d),
           isPro = False, proRefreshDone = (d_proRefreshDone d = Some True)\<rparr>)"

definition saveSettings :: "plugin \<Rightarrow> 'srv world \<Rightarrow> 'srv world" where
  "saveSettings p w =
     w\<lparr>persisted := Some \<lparr>d_settings = settings p, d_publishedNotes = publishedNotes p,
                           d_deviceFingerprint = deviceFingerprint p,
                           d_proRefreshDone = Some (proRefreshDone p)\<rparr>\<rparr>"

subsection \<open>Mirroring into the metadata header\<close>

text \<open>\<open>!ttlDays\<close> for a \<open>number | null\<close>.\<close>

definition falsy :: "int option \<Rightarrow> bool" where
  "falsy ttlDays = (ttlDays = None \<or> ttlDays = Some 0)"

text \<open>The callback \<open>writeFrontmatter\<close> passes to \<open>processFrontMatter\<close>.\<close>

definition frontmatter_mutator ::
  "string \<Rightarrow> string \<Rightarrow> int option \<Rightarrow> (string \<times> string) list \<Rightarrow> (string \<times> string) list" where
  "frontmatter_mutator u expiresAt ttlDays fm =
     (let fm1 = AList.delete ''jotbird_link'' fm;
          fm2 = AList.delete ''jotbird_expires'' fm1;
          fm3 = AList.update ''jotbird_link'' u fm2;
          fm4 = AList.update ''jotbird_expires''
                  (if falsy ttlDays then ''never'' else take 10 expiresAt) fm3;
          fm5 = AList.delete ''jotbird_url'' fm4;
          fm6 = AList.delete ''jotbird_slug'' fm5
      in AList.delete ''jotbird_published'' fm6)"

text \<open>The host's \<open>processFrontMatter\<close>: it rewrites the header of the document with the
  callback, or fails and leaves the header as it was.\<close>

definition processFrontMatter ::
  "TFile \<Rightarrow> ((string \<times> string) list \<Rightarrow> (string \<times> string) list) \<Rightarrow> 'srv world \<Rightarrow> 'srv world" where
  "processFrontMatter file fn w =
     (let w1 = emit (FrontMatter (f_path file)) w
      in if frontmatter_fails w1 (f_path file) then w1
         else w1\<lparr>frontmatter := (frontmatter w1)(f_path file := fn (frontmatter w1 (f_path file)))\<rparr>)"

definition writeFrontmatter ::
  "plugin \<Rightarrow> TFile \<Rightarrow> string \<Rightarrow> string \<Rightarrow> int option \<Rightarrow> 'srv world \<Rightarrow> 'srv world" where
  "writeFrontmatter p file u expiresAt ttlDays w =
     (if \<not> storeFrontmatter (settings p) then w
      else processFrontMatter file (frontmatter_mutator u expiresAt ttlDays) w)"

fun refresh_loop ::
  "plugin \<Rightarrow> string \<Rightarrow> (string \<times> PublishedNote) list \<Rightarrow> nat \<times> 'srv world \<Rightarrow> nat \<times> 'srv world" where
  "refresh_loop p excludePath [] (updated, w) = (updated, w)"
| "refresh_loop p excludePath ((filePath, note) # rest) (updated, w) =
     (if filePath = excludePath then refresh_loop p excludePath rest (updated, w)
      else case getAbstractFileByPath w filePath of
             Some (AFile file) \<Rightarrow>
               refresh_loop p excludePath rest
                 (Suc updated, writeFrontmatter p file (n_url note) [] (Some 0) w)
           | _ \<Rightarrow> refresh_loop p excludePath rest (updated, w))"

definition refreshProExpiration :: "plugin \<Rightarrow> string \<Rightarrow> 'srv world \<Rightarrow> 'srv world" where
  "refreshProExpiration p excludePath w0 =
     (let w = emit (Sweep excludePath) w0
      in if \<not> storeFrontmatter (settings p) then w
         else let (updated, w') = refresh_loop p excludePath (publishedNotes p) (0, w)
              in if updated > 0 then emit (Notice (ProUpdated updated)) w' else w')"

subsection \<open>Publishing\<close>

definition call_publishNote ::
  "'srv api \<Rightarrow> string \<Rightarrow> string \<Rightarrow> string \<Rightarrow> string option \<Rightarrow> 'srv world
   \<Rightarrow> (thrown + PublishResponse) \<times> 'srv world" where
  "call_publishNote a key markdown title slug w =
     (let (res, s') = publishNote a key markdown title slug (srv w)
      in (res, emit (Api (PublishNote key markdown title slug) (PublishReply res)) (w\<lparr>srv := s'\<rparr>)))"

definition call_trialPublish ::
  "'srv api \<Rightarrow> string \<Rightarrow> string \<Rightarrow> string \<Rightarrow> string option \<Rightarrow> string option \<Rightarrow> 'srv world
   \<Rightarrow> (thrown + PublishResponse) \<times> 'srv world" where
  "call_trialPublish a fingerprint markdown title slug editToken w =
     (let (res, s') = trialPublish a fingerprint markdown title slug editToken (srv w)
      in (res, emit (Api (TrialPublish fingerprint markdown title slug editToken) (PublishReply res))
                 (w\<lparr>srv := s'\<rparr>)))"

text \<open>\<^verbatim>\<open>e instanceof Error && /not found/i.test(e.message)\<close>, and
  \<^verbatim>\<open>e instanceof Error ? e.message : "Unknown error"\<close>\<close>

definition not_found_rx :: rx where
  "not_found_rx = lit_ci ''not found''"

definition is_not_found :: "thrown \<Rightarrow> bool" where
  "is_not_found e = (case e of JsError m \<Rightarrow> rx_test not_found_rx m | NonError \<Rightarrow> False)"

definition message :: "thrown \<Rightarrow> string" where
  "message e = (case e of JsError m \<Rightarrow> m | NonError \<Rightarrow> ''Unknown error'')"

text \<open>One call of the publishing endpoint, on the authenticated or on the anonymous path.\<close>

definition publish_call ::
  "'srv api \<Rightarrow> plugin \<Rightarrow> string \<Rightarrow> string \<Rightarrow> string option \<Rightarrow> string option \<Rightarrow> 'srv world
   \<Rightarrow> (thrown + PublishResponse) \<times> 'srv world" where
  "publish_call a p markdown title slug editToken w =
     (if apiKey (settings p) \<noteq> []
      then call_publishNote a (apiKey (settings p)) markdown title slug w
      else call_trialPublish a (deviceFingerprint p) markdown title slug editToken w)"

text \<open>The inner \<open>try\<close> of \<open>publishFile\<close>: the call, and the retry as a fresh publish.  The
  result is the response and whether it came from the retry, or what is thrown on.\<close>

definition remote_publish ::
  "'srv api \<Rightarrow> plugin \<Rightarrow> string \<Rightarrow> string \<Rightarrow> PublishedNote option \<Rightarrow> 'srv world
   \<Rightarrow> (thrown + PublishResponse \<times> bool) \<times> 'srv world" where
  "remote_publish a p markdown title existing w =
     (case publish_call a p markdown title (map_option n_slug existing)
             (Option.bind existing n_editToken) w of
        (Inr result, w1) \<Rightarrow> (Inr (result, False), w1)
      | (Inl e, w1) \<Rightarrow>
          if existing \<noteq> None \<and> is_not_found e then
            (case publish_call a p markdown title None None w1 of
               (Inr result, w2) \<Rightarrow> (Inr (result, True), w2)
             | (Inl e2, w2) \<Rightarrow> (Inl e2, w2))
          else (Inl e, w1))"

text \<open>\<^verbatim>\<open>/^# /\<close>\<close>

definition h1_start_rx :: rx where
  "h1_start_rx = seqs [Bol False, lit ''# '']"

text \<open>What \<open>publishFile\<close> does before the remote call: the progress notice, reading the
  document, the title and the text to publish.\<close>

definition prepare ::
  "'srv api \<Rightarrow> TFile \<Rightarrow> plugin \<Rightarrow> 'srv world \<Rightarrow> (thrown + string \<times> string) \<times> 'srv world" where
  "prepare a file p w0 =
     (let w = emit (Notice (Progress (if map_of (publishedNotes p) (f_path file) \<noteq> None
                                      then ''Updating'' else ''Publishing''))) w0
      in case contents w (f_path file) of
           Inl e \<Rightarrow> (Inl e, w)
         | Inr content \<Rightarrow>
             (let title = extractTitle content file;
                  (md, w1) = processMarkdown a content (apiKey (settings p))
                               (stripTags_enabled (settings p)) w
              in (Inr (if \<not> rx_test h1_start_rx md then ''# '' @ title @ [LF, LF] @ md else md,
                       title), w1)))"

text \<open>What \<open>publishFile\<close> does after a successful remote call.\<close>

definition record_publish ::
  "TFile \<Rightarrow> PublishedNote option \<Rightarrow> PublishResponse \<Rightarrow> bool \<Rightarrow> plugin \<times> 'srv world
   \<Rightarrow> plugin \<times> 'srv world" where
  "record_publish file existing result retried = (\<lambda>(p, w).
     let p1 = p\<lparr>publishedNotes :=
                  AList.update (f_path file)
                    \<lparr>n_slug = r_slug result, n_url = r_url result,
                     n_editToken = r_editToken result, n_publishedAt = clock w\<rparr>
                    (publishedNotes p)\<rparr>;
         w1 = saveSettings p1 w;
         w2 = writeFrontmatter p1 file (r_url result)
                (case r_expiresAt result of None \<Rightarrow> [] | Some x \<Rightarrow> x) (r_ttlDays result) w1;
         (p2, w3) = (if falsy (r_ttlDays result) \<and> \<not> proRefreshDone p1
                     then (p1\<lparr>proRefreshDone := True\<rparr>,
                           refreshProExpiration (p1\<lparr>proRefreshDone := True\<rparr>) (f_path file) w2)
                     else (p1, w2));
         verb = (if existing \<noteq> None \<and> \<not> retried then ''Updated'' else ''Published'');
         w4 = (if autoCopyLink (settings p2) then emit (Clipboard (r_url result)) w3 else w3)
     in (p2, emit (Notice (Done verb (autoCopyLink (settings p2)) (apiKey (settings p2) = []))) w4))"

definition publishFile :: "'srv api \<Rightarrow> TFile \<Rightarrow> plugin \<times> 'srv world \<Rightarrow> plugin \<times> 'srv world" where
  "publishFile a file = (\<lambda>(p, w0).
     case prepare a file p w0 of
       (Inl e, w) \<Rightarrow> (p, emit (Notice (Failed (message e))) w)
     | (Inr (markdown, title), w) \<Rightarrow>
         (case remote_publish a p markdown title (map_of (publishedNotes p) (f_path file)) w of
            (Inl e, w1) \<Rightarrow> (p, emit (Notice (Failed (message e))) w1)
          | (Inr (result, retried), w1) \<Rightarrow>
              record_publish file (map_of (publishedNotes p) (f_path file)) result retried (p, w1)))"

subsection \<open>Status check, upgrade, disconnect\<close>

definition call_listDocuments ::
  "'srv api \<Rightarrow> string \<Rightarrow> 'srv world \<Rightarrow> (thrown + DocumentListResponse) \<times> 'srv world" where
  "call_listDocuments a key w =
     (let (res, s') = listDocuments a key (srv w)
      in (res, emit (Api (ListDocuments key) (ListReply res)) (w\<lparr>srv := s'\<rparr>)))"

definition checkProStatus :: "'srv api \<Rightarrow> plugin \<times> 'srv world \<Rightarrow> plugin \<times> 'srv world" where
  "checkProStatus a = (\<lambda>(p, w).
     if apiKey (settings p) = [] then (p, w)
     else case call_listDocuments a (apiKey (settings p)) w of
            (Inr result, w1) \<Rightarrow> (p\<lparr>isPro := (l_isPro result = Some True)\<rparr>, w1)
          | (Inl _, w1) \<Rightarrow> (p, w1))"

definition handleProUpgrade :: "'srv api \<Rightarrow> plugin \<times> 'srv world \<Rightarrow> plugin \<times> 'srv world" where
  "handleProUpgrade a st =
     (case checkProStatus a st of (p1, w1) \<Rightarrow>
        if isPro p1
        then (p1\<lparr>proRefreshDone := True\<rparr>,
              emit (Notice Welcome) (refreshProExpiration (p1\<lparr>proRefreshDone := True\<rparr>) [] w1))
        else (p1, emit (Notice NotDetected) w1))"

text \<open>The \<open>Disconnect\<close> button of the settings tab.\<close>

definition disconnect :: "plugin \<times> 'srv world \<Rightarrow> plugin \<times> 'srv world" where
  "disconnect = (\<lambda>(p, w).
     let p1 = p\<lparr>settings := (settings p)\<lparr>apiKey := []\<rparr>, isPro := False, proRefreshDone := False\<rparr>
     in (p1, saveSettings p1 w))"

subsection \<open>Claiming anonymous documents\<close>

definition call_claimDocument ::
  "'srv api \<Rightarrow> string \<Rightarrow> string \<Rightarrow> string \<Rightarrow> 'srv world \<Rightarrow> (thrown + ClaimResponse) \<times> 'srv world" where
  "call_claimDocument a key slug editToken w =
     (let (res, s') = claimDocument a key slug editToken (srv w)
      in (res, emit (Api (ClaimDocument key slug editToken) (ClaimReply res)) (w\<lparr>srv := s'\<rparr>)))"

text \<open>\<open>!!note.editToken\<close>, and \<open>note.editToken!\<close> for a record that passed this filter.\<close>

definition has_token :: "PublishedNote \<Rightarrow> bool" where
  "has_token note = (case n_editToken note of Some t \<Rightarrow> t \<noteq> [] | None \<Rightarrow> False)"

definition token_of :: "PublishedNote \<Rightarrow> string" where
  "token_of note = (case n_editToken note of Some t \<Rightarrow> t | None \<Rightarrow> [])"

fun claim_loop ::
  "'srv api \<Rightarrow> (string \<times> PublishedNote) list \<Rightarrow> (plugin \<times> 'srv world) \<times> nat
   \<Rightarrow> (plugin \<times> 'srv world) \<times> nat" where
  "claim_loop a [] st = st"
| "claim_loop a ((filePath, note) # rest) ((p, w), claimed) =
     (case call_claimDocument a (apiKey (settings p)) (n_slug note) (token_of note) w of
        (Inr result, w1) \<Rightarrow>
          (let p1 = p\<lparr>publishedNotes :=
                       AList.update filePath
                         \<lparr>n_slug = c_slug result, n_url = c_url result, n_editToken = None,
                          n_publishedAt = n_publishedAt note\<rparr>
                         (publishedNotes p)\<rparr>;
               w2 = (case getAbstractFileByPath w1 filePath of
                       Some (AFile file) \<Rightarrow>
                         writeFrontmatter p1 file (c_url result)
                           (case c_expiresAt result of None \<Rightarrow> [] | Some x \<Rightarrow> x)
                           (c_ttlDays result) w1
                     | _ \<Rightarrow> w1)
           in claim_loop a rest ((p1, w2), Suc claimed))
      | (Inl _, w1) \<Rightarrow> claim_loop a rest ((p, w1), claimed))"

definition claimAnonymousDocuments ::
  "'srv api \<Rightarrow> plugin \<times> 'srv world \<Rightarrow> plugin \<times> 'srv world" where
  "claimAnonymousDocuments a = (\<lambda>(p, w).
     if apiKey (settings p) = [] then (p, w)
     else let toClaim = filter (\<lambda>(filePath, note). has_token note) (publishedNotes p)
          in if toClaim = [] then (p, w)
             else case claim_loop a toClaim ((p, w), 0) of
                    ((p1, w1), claimed) \<Rightarrow>
                      if claimed > 0
                      then (p1, emit (Notice (Linked claimed)) (saveSettings p1 w1))
                      else (p1, w1))"

subsection \<open>Rename and delete notifications\<close>

text \<open>
  The two handlers registered in \<open>onload\<close>; the notification carries the file (or
  folder) and, for a rename, the old path.  Both read \<open>this.publishedNotes[path]\<close> and test
  the value for truthiness.  A record is an object and so truthy.  For a path that is no
  key of the mapping the read goes on to \<open>Object.prototype\<close>: if the path is the name of
  one of its members, the read returns that member (a function, or for \<open>__proto__\<close> the
  prototype itself), which is truthy as well.
\<close>

definition prototype_members :: "string list" where
  "prototype_members =
     [''constructor'', ''hasOwnProperty'', ''isPrototypeOf'', ''propertyIsEnumerable'',
      ''toLocaleString'', ''toString'', ''valueOf'', ''__defineGetter__'', ''__defineSetter__'',
      ''__lookupGetter__'', ''__lookupSetter__'', ''__proto__'']"

datatype looked_up = Own PublishedNote | Inherited string

definition lookup_note :: "(string \<times> PublishedNote) list \<Rightarrow> string \<Rightarrow> looked_up option" where
  "lookup_note notes path =
     (case map_of notes path of
        Some note \<Rightarrow> Some (Own note)
      | None \<Rightarrow> if path \<in> set prototype_members then Some (Inherited path) else None)"

text \<open>
  What the rename handler has done when it leaves a mapping that no longer holds records
  only.  \<open>Member_stored path m\<close>: the value it read was the inherited member \<open>m\<close>, and it
  stored that member under \<open>path\<close>.  \<open>Prototype_replaced\<close>: the new path is \<open>__proto__\<close>, of
  which the mapping has no property of its own, so that the assignment replaced the
  prototype of the mapping by the value and created no property.  In both cases the
  handler went on to delete the old key and to call \<open>saveSettings\<close>.  The type
  \<^typ>\<open>plugin\<close> has no such states, and the model does not follow them further.
\<close>

datatype stray = Member_stored string string | Prototype_replaced

definition on_rename ::
  "abstract_file \<Rightarrow> string \<Rightarrow> plugin \<times> 'srv world \<Rightarrow> stray + plugin \<times> 'srv world" where
  "on_rename file oldPath = (\<lambda>(p, w).
     case file of
       AFolder _ \<Rightarrow> Inr (p, w)
     | AFile f \<Rightarrow>
         (case lookup_note (publishedNotes p) oldPath of
            None \<Rightarrow> Inr (p, w)
          | Some published \<Rightarrow>
              if f_path f = ''__proto__'' \<and> map_of (publishedNotes p) ''__proto__'' = None
              then Inl Prototype_replaced
              else (case published of
                      Inherited m \<Rightarrow> Inl (Member_stored (f_path f) m)
                    | Own note \<Rightarrow>
                        (let p1 = p\<lparr>publishedNotes :=
                                     AList.delete oldPath
                                       (AList.update (f_path f) note (publishedNotes p))\<rparr>
                         in Inr (p1, saveSettings p1 w)))))"

text \<open>The delete handler deletes the key, which changes nothing when the value read was
  inherited, and calls \<open>saveSettings\<close>.\<close>

definition on_delete :: "abstract_file \<Rightarrow> plugin \<times> 'srv world \<Rightarrow> plugin \<times> 'srv world" where
  "on_delete file = (\<lambda>(p, w).
     case file of
       AFolder _ \<Rightarrow> (p, w)
     | AFile f \<Rightarrow>
         (case lookup_note (publishedNotes p) (f_path f) of
            None \<Rightarrow> (p, w)
          | Some published \<Rightarrow>
              (let p1 = p\<lparr>publishedNotes := AList.delete (f_path f) (publishedNotes p)\<rparr>
               in (p1, saveSettings p1 w))))"


section \<open>Notions for the properties\<close>

text \<open>The calls of the publishing endpoint in a trace, the sweeps in a trace, and two
  classes of events.\<close>

fun publish_calls :: "event list \<Rightarrow> call list" where
  "publish_calls [] = []"
| "publish_calls (Api (PublishNote k m t s) r # es) = PublishNote k m t s # publish_calls es"
| "publish_calls (Api (TrialPublish k m t s e) r # es) = TrialPublish k m t s e # publish_calls es"
| "publish_calls (ev # es) = publish_calls es"

fun sweeps :: "event list \<Rightarrow> string list" where
  "sweeps [] = []"
| "sweeps (Sweep x # es) = x # sweeps es"
| "sweeps (ev # es) = sweeps es"

fun is_upload :: "event \<Rightarrow> bool" where
  "is_upload (Api (UploadImage k d f m) r) = True"
| "is_upload ev = False"

fun is_api :: "event \<Rightarrow> bool" where
  "is_api (Api c r) = True"
| "is_api ev = False"

definition publish_request :: "plugin \<Rightarrow> string \<Rightarrow> string \<Rightarrow> string option \<Rightarrow> string option \<Rightarrow> call" where
  "publish_request p markdown title slug editToken =
     (if apiKey (settings p) \<noteq> [] then PublishNote (apiKey (settings p)) markdown title slug
      else TrialPublish (deviceFingerprint p) markdown title slug editToken)"

text \<open>\<open>same_host w w'\<close>: nothing but the state of the service and the trace differs.\<close>

definition same_host :: "'srv world \<Rightarrow> 'srv world \<Rightarrow> bool" where
  "same_host w w' \<longleftrightarrow>
     contents w' = contents w \<and> binaries w' = binaries w \<and> vault_files w' = vault_files w
     \<and> entries w' = entries w \<and> frontmatter w' = frontmatter w
     \<and> frontmatter_fails w' = frontmatter_fails w \<and> clock w' = clock w
     \<and> persisted w' = persisted w"

text \<open>\<open>grows P w w'\<close>: \<open>w'\<close> is \<open>w\<close> after some calls of the service, which appended to the
  trace events that all satisfy \<open>P\<close>.\<close>

definition grows :: "(event \<Rightarrow> bool) \<Rightarrow> 'srv world \<Rightarrow> 'srv world \<Rightarrow> bool" where
  "grows P w w' \<longleftrightarrow> same_host w w' \<and> (\<exists>es. trace w' = trace w @ es \<and> list_all P es)"

fun is_prepare_event :: "event \<Rightarrow> bool" where
  "is_prepare_event (Notice (Progress x)) = True"
| "is_prepare_event ev = is_upload ev"

text \<open>\<open>extends P w w'\<close>: the trace of \<open>w'\<close> is that of \<open>w\<close> and then events that all
  satisfy \<open>P\<close>.\<close>

definition extends :: "(event \<Rightarrow> bool) \<Rightarrow> 'srv world \<Rightarrow> 'srv world \<Rightarrow> bool" where
  "extends P w w' \<longleftrightarrow> (\<exists>es. trace w' = trace w @ es \<and> list_all P es)"

text \<open>The resolution as the specification words it: the three criteria in stages, a later
  one only when no document meets an earlier one.\<close>

definition spec_staged_resolution :: "TFile list \<Rightarrow> string \<Rightarrow> TFile option" where
  "spec_staged_resolution files fileName =
     (case find (\<lambda>f. f_path f = fileName) files of
        Some f \<Rightarrow> Some f
      | None \<Rightarrow>
          (case find (\<lambda>f. f_name f = fileName) files of
             Some f \<Rightarrow> Some f
           | None \<Rightarrow> find (\<lambda>f. endsWith (f_path f) (''/'' @ fileName)) files))"

text \<open>The image references the two loops of \<open>processImages\<close> try to resolve: the matches
  outside code whose name has an image extension.\<close>

definition local_image_refs :: "string \<Rightarrow> rmatch list" where
  "local_image_refs md =
     filter (\<lambda>(b, e, c). \<not> isInsideCode b (buildCodeRegions md)
                          \<and> rx_test imageExtensions (grp md c 1))
            (rx_matches wikiImageRegex md 0)
     @ filter (\<lambda>(b, e, c). \<not> isInsideCode b (buildCodeRegions md)
                            \<and> rx_test imageExtensions (grp md c 2))
              (rx_matches mdImageRegex md 0)"

text \<open>
  The constructs the steps of the transformation rewrite, read off the text itself.
  \<open>occurs_at x t i\<close>: the text \<open>x\<close> stands in \<open>t\<close> at offset \<open>i\<close>.  A metadata header: the
  text begins with a line \<open>---\<close> and a later line begins with \<open>---\<close>.  A comment span: \<open>%%\<close>
  and, after it and not overlapping it, another \<open>%%\<close>.  A wiki link: \<open>[[\<close>, then one or more
  characters other than \<open>]\<close>, then \<open>]]\<close>.  The removable tags: the matches of the tag
  expression for which the callback of \<open>stripTags\<close> returns something else than the match.
\<close>

definition occurs_at :: "string \<Rightarrow> string \<Rightarrow> nat \<Rightarrow> bool" where
  "occurs_at x t i \<longleftrightarrow> i + length x \<le> length t \<and> slice t i (i + length x) = x"

definition has_header :: "string \<Rightarrow> bool" where
  "has_header t \<longleftrightarrow>
     (occurs_at (''---'' @ [LF]) t 0 \<and> list_ex (occurs_at (LF # ''---'') t) [4..<length t])
     \<or> (occurs_at (''---'' @ [CR, LF]) t 0 \<and> list_ex (occurs_at (LF # ''---'') t) [5..<length t])"

definition has_comment_span :: "string \<Rightarrow> bool" where
  "has_comment_span t \<longleftrightarrow>
     list_ex (\<lambda>i. occurs_at ''%%'' t i \<and> list_ex (occurs_at ''%%'' t) [i + 2..<length t])
       [0..<length t]"

definition has_wiki_link :: "string \<Rightarrow> bool" where
  "has_wiki_link t \<longleftrightarrow>
     list_ex (\<lambda>i. occurs_at ''[['' t i
                  \<and> list_ex (\<lambda>j. occurs_at '']]'' t j
                                 \<and> list_all (\<lambda>k. t ! k \<noteq> CHR '']'') [i + 2..<j])
                        [i + 3..<length t])
       [0..<length t]"

definition removable_tags :: "string \<Rightarrow> rmatch list" where
  "removable_tags t = filter (\<lambda>(b, e, c). tag_callback t (b, e, c) \<noteq> slice t b e) (rx_matches tag_rx t 0)"

text \<open>The claim calls in a trace, each with its arguments and what the service answered;
  and those made between two worlds of one run.\<close>

fun claim_events :: "event list \<Rightarrow> ((string \<times> string \<times> string) \<times> (thrown + ClaimResponse)) list" where
  "claim_events [] = []"
| "claim_events (Api (ClaimDocument k s t) (ClaimReply r) # es) = ((k, s, t), r) # claim_events es"
| "claim_events (ev # es) = claim_events es"

definition new_claims ::
  "'srv world \<Rightarrow> 'srv world \<Rightarrow> ((string \<times> string \<times> string) \<times> (thrown + ClaimResponse)) list" where
  "new_claims w w' = drop (length (claim_events (trace w))) (claim_events (trace w'))"

text \<open>The record a successful claim leaves for a note, and the record after a claim call
  with a given outcome.\<close>

definition claimed_note :: "PublishedNote \<Rightarrow> ClaimResponse \<Rightarrow> PublishedNote" where
  "claimed_note nt result =
     \<lparr>n_slug = c_slug result, n_url = c_url result, n_editToken = None,
      n_publishedAt = n_publishedAt nt\<rparr>"

definition note_after_claim :: "PublishedNote \<Rightarrow> thrown + ClaimResponse \<Rightarrow> PublishedNote" where
  "note_after_claim nt outcome =
     (case outcome of Inr result \<Rightarrow> claimed_note nt result | Inl e \<Rightarrow> nt)"

text \<open>The events of mirroring and of telling the user: no call of the service, no sweep.\<close>

fun is_mirror_event :: "event \<Rightarrow> bool" where
  "is_mirror_event (FrontMatter q) = True"
| "is_mirror_event (Notice n) = True"
| "is_mirror_event (Clipboard u) = True"
| "is_mirror_event ev = False"

text \<open>The path holds a document.\<close>

definition is_file :: "'srv world \<Rightarrow> string \<Rightarrow> bool" where
  "is_file w q = (case entries w q of Some (FileEntry name basename extension) \<Rightarrow> True | _ \<Rightarrow> False)"

text \<open>The operations of a session that can observe the tier, and a session as a sequence
  of them, run one after the other.\<close>

datatype session_op = Publish TFile | StatusCheck

fun run_ops :: "'srv api \<Rightarrow> session_op list \<Rightarrow> plugin \<times> 'srv world \<Rightarrow> plugin \<times> 'srv world" where
  "run_ops a [] st = st"
| "run_ops a (Publish file # ops) st = run_ops a ops (publishFile a file st)"
| "run_ops a (StatusCheck # ops) st = run_ops a ops (checkProStatus a st)"

section \<open>Example data\<close>

text \<open>Concrete documents, records, plugin states and hosts, on which the theorems below
  are instantiated.\<close>

definition ex_file :: "string \<Rightarrow> string \<Rightarrow> TFile" where
  "ex_file dir base =
     \<lparr>f_path = dir @ base @ ''.md'', f_name = base @ ''.md'', f_basename = base,
      f_extension = ''md''\<rparr>"

text \<open>A file without extension at the root of the vault, named as a member of
  \<open>Object.prototype\<close> is.\<close>

definition ex_member_file :: TFile where
  "ex_member_file =
     \<lparr>f_path = ''constructor'', f_name = ''constructor'', f_basename = ''constructor'',
      f_extension = []\<rparr>"

definition ex_note :: "string \<Rightarrow> string option \<Rightarrow> PublishedNote" where
  "ex_note slug tok =
     \<lparr>n_slug = slug, n_url = ''https://share.jotbird.com/'' @ slug, n_editToken = tok,
      n_publishedAt = ''2026-01-01T00:00:00.000Z''\<rparr>"

definition ex_plugin :: "string \<Rightarrow> (string \<times> PublishedNote) list \<Rightarrow> plugin" where
  "ex_plugin key notes =
     \<lparr>settings = DEFAULT_SETTINGS\<lparr>apiKey := key\<rparr>, publishedNotes = notes,
      deviceFingerprint = ''device-1'', isPro = False, proRefreshDone = False\<rparr>"

definition ex_world :: "(string \<Rightarrow> thrown + string) \<Rightarrow> nat world" where
  "ex_world texts =
     \<lparr>srv = 0, trace = [], contents = texts, binaries = (\<lambda>p. Inl (JsError ''no such file'')),
      vault_files = [], entries = (\<lambda>p. None), frontmatter = (\<lambda>p. []),
      frontmatter_fails = (\<lambda>p. False), clock = ''2026-02-01T00:00:00.000Z'', persisted = None\<rparr>"

definition ex_response :: "string \<Rightarrow> int option \<Rightarrow> PublishResponse" where
  "ex_response slug ttl =
     \<lparr>r_slug = slug, r_url = ''https://share.jotbird.com/'' @ slug, r_title = ''Title'',
      r_expiresAt = Some ''2026-05-10T00:00:00.000Z'', r_ttlDays = ttl, r_created = True,
      r_editToken = None\<rparr>"

text \<open>A service on which every update finds the document gone and every fresh publish
  succeeds; and one on which every call fails with the same message.\<close>

definition ex_api_expired :: "int option \<Rightarrow> nat api" where
  "ex_api_expired ttl =
     \<lparr>publishNote = (\<lambda>key markdown title slug n.
        (if slug = None then Inr (ex_response ''fresh'' ttl)
         else Inl (JsError ''Publish: Document not found''), Suc n)),
      trialPublish = (\<lambda>fingerprint markdown title slug editToken n.
        (if slug = None then Inr (ex_response ''fresh'' ttl)
         else Inl (JsError ''Publish: Document not found''), Suc n)),
      listDocuments = (\<lambda>key n. (Inr \<lparr>l_documents = [], l_isPro = Some True\<rparr>, Suc n)),
      claimDocument = (\<lambda>key slug editToken n. (Inl (JsError ''Claim: Not found''), Suc n)),
      uploadImage = (\<lambda>key data filename mime n. (Inl (JsError ''Image upload: failed''), Suc n))\<rparr>"

definition ex_api_down :: "string \<Rightarrow> nat api" where
  "ex_api_down msg =
     \<lparr>publishNote = (\<lambda>key markdown title slug n. (Inl (JsError msg), Suc n)),
      trialPublish = (\<lambda>fingerprint markdown title slug editToken n. (Inl (JsError msg), Suc n)),
      listDocuments = (\<lambda>key n. (Inl (JsError msg), Suc n)),
      claimDocument = (\<lambda>key slug editToken n. (Inl (JsError msg), Suc n)),
      uploadImage = (\<lambda>key data filename mime n. (Inl (JsError msg), Suc n))\<rparr>"

definition ex_image :: "string \<Rightarrow> TFile" where
  "ex_image dir =
     \<lparr>f_path = dir @ ''img.png'', f_name = ''img.png'', f_basename = ''img'', f_extension = ''png''\<rparr>"

definition ex_two_rules :: string where
  "ex_two_rules =
     ''---'' @ [LF] @ ''title: T'' @ [LF] @ ''---'' @ [LF] @
     ''---'' @ [LF] @ ''One'' @ [LF] @ ''---'' @ [LF] @ ''Two''"

text \<open>A service that hands the document with the slug \<open>a\<close> over to the account and
  refuses every other claim.\<close>

definition ex_api_claim :: "nat api" where
  "ex_api_claim =
     (ex_api_down ''unused'')
       \<lparr>claimDocument := (\<lambda>key slug editToken n.
          (if slug = ''a''
           then Inr \<lparr>c_ok = True, c_slug = ''a'', c_url = ''https://share.jotbird.com/u/a'',
                      c_expiresAt = Some ''2026-05-10T00:00:00.000Z'', c_ttlDays = Some 90\<rparr>
           else Inl (JsError ''Claim: Document not found''), Suc n))\<rparr>"

definition ex_three_notes :: "(string \<times> PublishedNote) list" where
  "ex_three_notes =
     [(''notes/a.md'', ex_note ''a'' (Some ''token-a'')),
      (''notes/b.md'', ex_note ''b'' (Some ''token-b'')),
      (''notes/c.md'', ex_note ''c'' None)]"

text \<open>A host in which \<open>notes/b.md\<close> is a document, and a service on the permanent tier:
  every fresh publish comes back with \<open>ttlDays = null\<close>, the document list with \<open>isPro\<close>.\<close>

definition ex_vault :: "nat world" where
  "ex_vault =
     (ex_world (\<lambda>p. Inr ''Hello''))
       \<lparr>entries := (\<lambda>q. if q = ''notes/b.md'' then Some (FileEntry ''b.md'' ''b'' ''md'') else None)\<rparr>"

definition ex_api_pro :: "nat api" where
  "ex_api_pro = ex_api_expired None"

text \<open>The host of \<open>ex_vault\<close> with the state of an earlier session stored, in which the sweep
  had already run.\<close>

definition ex_stored :: "nat world" where
  "ex_stored =
     ex_vault\<lparr>persisted := Some
       \<lparr>d_settings = DEFAULT_SETTINGS\<lparr>apiKey := ''jb_key''\<rparr>,
        d_publishedNotes = [(''notes/b.md'', ex_note ''b'' None)],
        d_deviceFingerprint = ''device-1'', d_proRefreshDone = Some True\<rparr>\<rparr>"

text \<open>A document with a link, a comment, a tag, a tag after a heading marker, and one
  \<open>%%\<close> and one \<open>[[\<close> that belong to nothing; and what the transformation makes of it.\<close>

definition ex_half :: string where
  "ex_half =
     ''  See [[Other Page|that page]] for %%secret%% 50%% of [[one] thing. #tag1'' @ [LF]
     @ ''## #kept  ''"

definition ex_half_out :: string where
  "ex_half_out = ''See that page for  50%% of [[one] thing. '' @ [LF] @ ''## #kept''"

section \<open>Properties\<close>

subsection \<open>The matcher stays inside the string\<close>

text \<open>Every match ends at or after its start and inside the string, so the bounds in
  the definitions of \<^const>\<open>ms\<close> and \<^const>\<open>rx_matches\<close>, which make their recursion terminate,
  exclude no match.\<close>

lemma ms_bounds:
  "(j, c') \<in> set (ms s r (i, c)) \<Longrightarrow> i \<le> length s \<Longrightarrow> i \<le> j \<and> j \<le> length s"
proof (induction s r "(i, c)" arbitrary: i c j c' rule: ms.induct)
  case (4 s a b i c)
  from "4.prems"(1) obtain k d where
    1: "(k, d) \<in> set (ms s a (i, c))" and 2: "(j, c') \<in> set (ms s b (k, d))"
    by auto
  from "4.hyps"(1) [OF 1 "4.prems"(2)] have k: "i \<le> k" "k \<le> length s" by simp_all
  from "4.hyps"(2) [OF 1 2 k(2)] k show ?case by simp
next
  case (6 s r i c)
  show ?case
  proof (cases "(j, c') = (i, c)")
    case True
    with "6.prems"(2) show ?thesis by simp
  next
    case False
    with "6.prems"(1) obtain k d where
      1: "(k, d) \<in> set (ms s r (i, c))" and k: "i < k" "k \<le> length s"
      and 2: "(j, c') \<in> set (ms s (Star r) (k, d))"
      by (subst (asm) ms.simps(6)) auto
    have "(k, d) \<in> set (filter (\<lambda>(j, _). i < j \<and> j \<le> length s) (ms s r (i, c)))"
      using 1 k by simp
    from "6.hyps"(2) [OF this 2 k(2)] k show ?thesis by simp
  qed
next
  case (7 s r i c)
  show ?case
  proof (cases "(j, c') = (i, c)")
    case True
    with "7.prems"(2) show ?thesis by simp
  next
    case False
    with "7.prems"(1) obtain k d where
      1: "(k, d) \<in> set (ms s r (i, c))" and k: "i < k" "k \<le> length s"
      and 2: "(j, c') \<in> set (ms s (Lazy r) (k, d))"
      by (subst (asm) ms.simps(7)) auto
    have "(k, d) \<in> set (filter (\<lambda>(j, _). i < j \<and> j \<le> length s) (ms s r (i, c)))"
      using 1 k by simp
    from "7.hyps"(2) [OF this 2 k(2)] k show ?thesis by simp
  qed
qed (auto split: if_splits option.splits)

lemma star_filter_all:
  "i \<le> length s \<Longrightarrow>
   filter (\<lambda>(j, _). i < j \<and> j \<le> length s) (ms s r (i, c))
   = filter (\<lambda>(j, _). j \<noteq> i) (ms s r (i, c))"
  by (rule filter_cong) (auto dest: ms_bounds)

lemma rx_exec_bounds:
  "rx_exec r s i = Some (b, e, c) \<Longrightarrow> i \<le> b \<and> b \<le> e \<and> e \<le> length s"
proof (induction r s i rule: rx_exec.induct)
  case (1 r s i)
  show ?case
  proof (cases "ms s r (i, [])")
    case Nil
    with "1.prems" "1.IH" show ?thesis
      by (subst (asm) rx_exec.simps) (auto split: if_splits)
  next
    case (Cons m rest)
    obtain e' c' where m: "m = (e', c')" by (cases m)
    from "1.prems" Cons m have "\<not> length s < i" and "b = i" "e = e'"
      by (subst (asm) rx_exec.simps, auto split: if_splits)+
    moreover have "(e', c') \<in> set (ms s r (i, []))" using Cons m by simp
    ultimately show ?thesis using ms_bounds [of e' c' s r i "[]"] by simp
  qed
qed

subsection \<open>What each step adds to the trace\<close>

lemma publish_calls_append: "publish_calls (xs @ ys) = publish_calls xs @ publish_calls ys"
  by (induction xs rule: publish_calls.induct) auto

lemma sweeps_append: "sweeps (xs @ ys) = sweeps xs @ sweeps ys"
  by (induction xs rule: sweeps.induct) auto

lemma publish_calls_uploads: "list_all is_upload es \<Longrightarrow> publish_calls es = []"
  by (induction es rule: publish_calls.induct) auto

lemma sweeps_api: "list_all is_api es \<Longrightarrow> sweeps es = []"
  by (induction es rule: sweeps.induct) auto

lemma is_upload_api: "is_upload ev \<Longrightarrow> is_api ev"
  by (cases ev rule: is_upload.cases) auto

lemma emit_fields [simp]:
  "trace (emit ev w) = trace w @ [ev]"
  "srv (emit ev w) = srv w"
  "contents (emit ev w) = contents w"
  "binaries (emit ev w) = binaries w"
  "vault_files (emit ev w) = vault_files w"
  "entries (emit ev w) = entries w"
  "frontmatter (emit ev w) = frontmatter w"
  "frontmatter_fails (emit ev w) = frontmatter_fails w"
  "clock (emit ev w) = clock w"
  "persisted (emit ev w) = persisted w"
  by (simp_all add: emit_def)

lemma getAbstractFileByPath_cong:
  "entries w' = entries w \<Longrightarrow> getAbstractFileByPath w' = getAbstractFileByPath w"
  by (rule ext) (simp add: getAbstractFileByPath_def)

lemma saveSettings_fields [simp]:
  "trace (saveSettings p w) = trace w"
  "srv (saveSettings p w) = srv w"
  "contents (saveSettings p w) = contents w"
  "binaries (saveSettings p w) = binaries w"
  "vault_files (saveSettings p w) = vault_files w"
  "entries (saveSettings p w) = entries w"
  "frontmatter (saveSettings p w) = frontmatter w"
  "frontmatter_fails (saveSettings p w) = frontmatter_fails w"
  "clock (saveSettings p w) = clock w"
  by (simp_all add: saveSettings_def)

lemma grows_refl [simp]: "grows P w w"
  by (simp add: grows_def same_host_def)

lemma grows_trans: "grows P w w1 \<Longrightarrow> grows P w1 w2 \<Longrightarrow> grows P w w2"
  by (auto simp: grows_def same_host_def)

lemma grows_mono: "grows P w w' \<Longrightarrow> (\<And>ev. P ev \<Longrightarrow> Q ev) \<Longrightarrow> grows Q w w'"
  unfolding grows_def by (auto simp: list_all_iff)

lemma grows_emit: "P ev \<Longrightarrow> grows P w (emit ev w)"
  by (simp add: grows_def same_host_def)

lemma call_uploadImage_grows:
  "call_uploadImage a k d f m w = (res, w') \<Longrightarrow> grows is_upload w w'"
  by (auto simp: call_uploadImage_def grows_def same_host_def split: prod.splits)

lemma resolveAndUploadImage_grows:
  "resolveAndUploadImage a n k w = (res, w') \<Longrightarrow> grows is_upload w w'"
  by (auto simp: resolveAndUploadImage_def split: option.splits sum.splits prod.splits
           dest: call_uploadImage_grows)

lemma wiki_loop_grows:
  "wiki_loop a k md regs mts (reps, w) = (reps', w') \<Longrightarrow> grows is_upload w w'"
proof (induction mts arbitrary: reps w)
  case Nil
  then show ?case by simp
next
  case (Cons m mts)
  obtain b e c where m: "m = (b, e, c)" by (cases m)
  show ?case using Cons.prems Cons.IH unfolding m
    by (auto split: if_splits prod.splits option.splits
             dest!: resolveAndUploadImage_grows intro: grows_trans)
qed

lemma md_loop_grows:
  "md_loop a k md regs mts (reps, w) = (reps', w') \<Longrightarrow> grows is_upload w w'"
proof (induction mts arbitrary: reps w)
  case Nil
  then show ?case by simp
next
  case (Cons m mts)
  obtain b e c where m: "m = (b, e, c)" by (cases m)
  show ?case using Cons.prems Cons.IH unfolding m
    by (auto split: if_splits prod.splits option.splits
             dest!: resolveAndUploadImage_grows intro: grows_trans)
qed

lemma processImages_grows:
  assumes "processImages a md k w = (md', w')"
  shows "grows is_upload w w'"
proof -
  obtain reps1 w1 where 1:
    "wiki_loop a k md (buildCodeRegions md) (rx_matches wikiImageRegex md 0) ([], w) = (reps1, w1)"
    by (cases "wiki_loop a k md (buildCodeRegions md) (rx_matches wikiImageRegex md 0) ([], w)")
  obtain reps2 w2 where 2:
    "md_loop a k md (buildCodeRegions md) (rx_matches mdImageRegex md 0) (reps1, w1) = (reps2, w2)"
    by (cases "md_loop a k md (buildCodeRegions md) (rx_matches mdImageRegex md 0) (reps1, w1)")
  from assms 1 2 have "w' = w2" by (simp add: processImages_def Let_def)
  with wiki_loop_grows [OF 1] md_loop_grows [OF 2] show ?thesis by (auto intro: grows_trans)
qed

lemma processMarkdown_grows:
  "processMarkdown a c k flag w = (md, w') \<Longrightarrow> grows is_upload w w'"
  by (auto simp: processMarkdown_def Let_def split: prod.splits dest!: processImages_grows)

lemma prepare_grows:
  assumes "prepare a file p w0 = (res, w)"
  shows "grows is_prepare_event w0 w"
proof -
  let ?w = "emit (Notice (Progress (if map_of (publishedNotes p) (f_path file) \<noteq> None
                                      then ''Updating'' else ''Publishing''))) w0"
  have 0: "grows is_prepare_event w0 ?w" by (rule grows_emit) simp
  show ?thesis
  proof (cases "contents ?w (f_path file)")
    case (Inl e)
    with assms have "w = ?w" by (simp add: prepare_def Let_def)
    with 0 show ?thesis by simp
  next
    case (Inr content)
    obtain md w1 where pm: "processMarkdown a content (apiKey (settings p)) (stripTags_enabled (settings p)) ?w = (md, w1)"
      by (cases "processMarkdown a content (apiKey (settings p)) (stripTags_enabled (settings p)) ?w")
    from assms Inr pm have "w = w1" by (simp add: prepare_def Let_def)
    moreover have "grows is_prepare_event ?w w1"
      using processMarkdown_grows [OF pm] by (rule grows_mono) (auto elim: is_upload.elims)
    ultimately show ?thesis using 0 by (auto intro: grows_trans)
  qed
qed

subsection \<open>Rename and delete notifications\<close>

text \<open>
  Away from the names of the members of \<open>Object.prototype\<close> the handlers do what the
  specification says.  A rename notification for a document moves the record at the old
  path, if there is one, to the new path with all its fields, removes the old key and
  saves; with no record at the old path nothing changes.  A delete notification removes
  the record at the path of the document; with no record there nothing changes.  In both
  cases the record of no other path is affected, and a notification about a folder changes
  nothing.  (A rename carries a new path that differs from the old one.)
\<close>

lemma handlers_on_records:
  fixes p :: plugin and w :: "'srv world"
  assumes "f_path f \<noteq> oldPath" and "f_path f \<noteq> ''__proto__''"
  shows
    "(map_of (publishedNotes p) oldPath = Some n \<longrightarrow>
        (\<exists>p'. on_rename (AFile f) oldPath (p, w) = Inr (p', saveSettings p' w)
              \<and> map_of (publishedNotes p') (f_path f) = Some n
              \<and> map_of (publishedNotes p') oldPath = None
              \<and> (\<forall>q. q \<noteq> oldPath \<and> q \<noteq> f_path f \<longrightarrow>
                    map_of (publishedNotes p') q = map_of (publishedNotes p) q)))
     \<and> (map_of (publishedNotes p) oldPath = None \<and> oldPath \<notin> set prototype_members \<longrightarrow>
          on_rename (AFile f) oldPath (p, w) = Inr (p, w))
     \<and> on_rename (AFolder d) oldPath (p, w) = Inr (p, w)
     \<and> map_of (publishedNotes (fst (on_delete (AFile f) (p, w)))) (f_path f) = None
     \<and> (map_of (publishedNotes p) (f_path f) = None \<and> f_path f \<notin> set prototype_members \<longrightarrow>
          on_delete (AFile f) (p, w) = (p, w))
     \<and> (\<forall>q. q \<noteq> f_path f \<longrightarrow>
           map_of (publishedNotes (fst (on_delete (AFile f) (p, w)))) q = map_of (publishedNotes p) q)
     \<and> on_delete (AFolder d) (p, w) = (p, w)"
proof -
  have moved: "\<exists>p'. on_rename (AFile f) oldPath (p, w) = Inr (p', saveSettings p' w)
              \<and> map_of (publishedNotes p') (f_path f) = Some n
              \<and> map_of (publishedNotes p') oldPath = None
              \<and> (\<forall>q. q \<noteq> oldPath \<and> q \<noteq> f_path f \<longrightarrow>
                    map_of (publishedNotes p') q = map_of (publishedNotes p) q)"
    if "map_of (publishedNotes p) oldPath = Some n"
    using that assms
    by (intro exI [of _ "p\<lparr>publishedNotes :=
                             AList.delete oldPath (AList.update (f_path f) n (publishedNotes p))\<rparr>"])
       (simp add: on_rename_def lookup_note_def Let_def delete_conv' update_conv')
  have idle: "on_rename (AFile f) oldPath (p, w) = Inr (p, w)"
    if "map_of (publishedNotes p) oldPath = None" "oldPath \<notin> set prototype_members"
    using that by (simp add: on_rename_def lookup_note_def)
  have folder: "on_rename (AFolder d) oldPath (p, w) = Inr (p, w)"
    by (simp add: on_rename_def)
  have deleted: "map_of (publishedNotes (fst (on_delete (AFile f) (p, w)))) (f_path f) = None"
    by (auto simp: on_delete_def lookup_note_def Let_def delete_conv' split: option.splits)
  have idle': "on_delete (AFile f) (p, w) = (p, w)"
    if "map_of (publishedNotes p) (f_path f) = None" "f_path f \<notin> set prototype_members"
    using that by (simp add: on_delete_def lookup_note_def)
  have others: "map_of (publishedNotes (fst (on_delete (AFile f) (p, w)))) q = map_of (publishedNotes p) q"
    if "q \<noteq> f_path f" for q
    using that
    by (auto simp: on_delete_def lookup_note_def Let_def delete_conv' split: option.splits)
  have folder': "on_delete (AFolder d) (p, w) = (p, w)"
    by (simp add: on_delete_def)
  from moved idle folder deleted idle' others folder' show ?thesis by blast
qed

lemma handlers_on_records_example:
  "on_rename (AFile (ex_file ''notes/'' ''d'')) ''notes/a.md''
       (ex_plugin [] ex_three_notes, ex_world (\<lambda>p. Inr []))
     = Inr (ex_plugin []
              [(''notes/b.md'', ex_note ''b'' (Some ''token-b'')), (''notes/c.md'', ex_note ''c'' None),
               (''notes/d.md'', ex_note ''a'' (Some ''token-a''))],
            saveSettings
              (ex_plugin []
                 [(''notes/b.md'', ex_note ''b'' (Some ''token-b'')), (''notes/c.md'', ex_note ''c'' None),
                  (''notes/d.md'', ex_note ''a'' (Some ''token-a''))])
              (ex_world (\<lambda>p. Inr [])))
   \<and> on_rename (AFile (ex_file ''notes/'' ''e'')) ''notes/d.md''
       (ex_plugin [] ex_three_notes, ex_world (\<lambda>p. Inr []))
     = Inr (ex_plugin [] ex_three_notes, ex_world (\<lambda>p. Inr []))
   \<and> publishedNotes (fst (on_delete (AFile (ex_file ''notes/'' ''b''))
       (ex_plugin [] ex_three_notes, ex_world (\<lambda>p. Inr []))))
     = [(''notes/a.md'', ex_note ''a'' (Some ''token-a'')), (''notes/c.md'', ex_note ''c'' None)]
   \<and> on_delete (AFile (ex_file ''notes/'' ''e'')) (ex_plugin [] ex_three_notes, ex_world (\<lambda>p. Inr []))
     = (ex_plugin [] ex_three_notes, ex_world (\<lambda>p. Inr []))"
  by (simp add: on_rename_def on_delete_def lookup_note_def prototype_members_def Let_def
                ex_plugin_def ex_three_notes_def ex_file_def)

text \<open>
  Claim C8.  A rename of a path with no record should change nothing, and so should a
  delete of an unrecorded path.  The handlers test \<open>this.publishedNotes[path]\<close>, which for
  a path named as a member of \<open>Object.prototype\<close> is, and with no record, is the inherited
  member.  A file \<open>constructor\<close> at the root of the vault that is moved to
  \<open>notes/e.md\<close>, with no record for either path, makes the rename handler store the
  function \<open>Object\<close> under \<open>notes/e.md\<close> and save; a delete notification for it makes the
  delete handler save, here for the first time.
\<close>

theorem rename_of_member_name:
  "map_of (publishedNotes (ex_plugin [] ex_three_notes)) ''constructor'' = None
   \<and> map_of (publishedNotes (ex_plugin [] ex_three_notes)) ''notes/e.md'' = None
   \<and> on_rename (AFile (ex_file ''notes/'' ''e'')) ''constructor''
        (ex_plugin [] ex_three_notes, ex_world (\<lambda>p. Inr []))
      = Inl (Member_stored ''notes/e.md'' ''constructor'')
   \<and> persisted (ex_world (\<lambda>p. Inr [])) = None
   \<and> persisted (snd (on_delete (AFile ex_member_file)
        (ex_plugin [] ex_three_notes, ex_world (\<lambda>p. Inr []))))
      = Some \<lparr>d_settings = DEFAULT_SETTINGS, d_publishedNotes = ex_three_notes,
              d_deviceFingerprint = ''device-1'', d_proRefreshDone = Some False\<rparr>"
  by (simp add: on_rename_def on_delete_def lookup_note_def prototype_members_def Let_def
                saveSettings_def ex_plugin_def ex_three_notes_def ex_file_def ex_member_file_def
                ex_world_def DEFAULT_SETTINGS_def)

subsection \<open>Publishing\<close>

lemma grows_extends: "grows P w w' \<Longrightarrow> extends P w w'"
  by (simp add: grows_def extends_def)

lemma extends_refl [simp]: "extends P w w"
  by (simp add: extends_def)

lemma extends_trans: "extends P w w1 \<Longrightarrow> extends P w1 w2 \<Longrightarrow> extends P w w2"
  by (auto simp: extends_def)

lemma extends_emit: "P ev \<Longrightarrow> extends P w w1 \<Longrightarrow> extends P w (emit ev w1)"
  by (auto simp: extends_def)

lemma extends_saveSettings: "extends P w w1 \<Longrightarrow> extends P w (saveSettings p w1)"
  by (auto simp: extends_def)

lemma extends_mono: "extends P w w' \<Longrightarrow> (\<And>ev. P ev \<Longrightarrow> Q ev) \<Longrightarrow> extends Q w w'"
  unfolding extends_def by (auto simp: list_all_iff)

lemma publish_calls_no_api: "list_all (\<lambda>ev. \<not> is_api ev) es \<Longrightarrow> publish_calls es = []"
  by (induction es rule: publish_calls.induct) auto

lemma sweeps_no_sweep: "list_all (\<lambda>ev. \<forall>x. ev \<noteq> Sweep x) es \<Longrightarrow> sweeps es = []"
  by (induction es rule: sweeps.induct) auto

lemma extends_publish_calls:
  "extends (\<lambda>ev. \<not> is_api ev) w w' \<Longrightarrow> publish_calls (trace w') = publish_calls (trace w)"
  by (auto simp: extends_def publish_calls_append publish_calls_no_api)

lemma prepare_publish_calls:
  assumes "prepare a file p w0 = (res, w)"
  shows "publish_calls (trace w) = publish_calls (trace w0)"
proof -
  from prepare_grows [OF assms] obtain es where
    es: "trace w = trace w0 @ es" "list_all is_prepare_event es"
    by (auto simp: grows_def)
  have "publish_calls es = []" using es(2)
    by (induction es rule: publish_calls.induct) auto
  with es(1) show ?thesis by (simp add: publish_calls_append)
qed

lemma processFrontMatter_extends:
  "extends (\<lambda>ev. \<not> is_api ev) w (processFrontMatter file fn w)"
  by (auto simp: processFrontMatter_def Let_def extends_def)

lemma writeFrontmatter_extends:
  "extends (\<lambda>ev. \<not> is_api ev) w (writeFrontmatter p file u x t w)"
  by (simp add: writeFrontmatter_def processFrontMatter_extends)

lemma refresh_loop_extends:
  "refresh_loop p x ns (u, w) = (u', w') \<Longrightarrow> extends (\<lambda>ev. \<not> is_api ev) w w'"
proof (induction ns arbitrary: u w)
  case Nil
  then show ?case by simp
next
  case (Cons kv ns)
  obtain q nt where kv: "kv = (q, nt)" by (cases kv)
  show ?case using Cons.prems unfolding kv
    by (auto split: if_splits option.splits abstract_file.splits
             dest!: Cons.IH intro: extends_trans [OF writeFrontmatter_extends])
qed

lemma refreshProExpiration_extends:
  "extends (\<lambda>ev. \<not> is_api ev) w (refreshProExpiration p x w)"
proof -
  have 0: "extends (\<lambda>ev. \<not> is_api ev) w (emit (Sweep x) w)"
    by (rule extends_emit) simp_all
  show ?thesis
  proof (cases "storeFrontmatter (settings p)")
    case False
    with 0 show ?thesis by (simp add: refreshProExpiration_def Let_def)
  next
    case True
    obtain u w' where l: "refresh_loop p x (publishedNotes p) (0, emit (Sweep x) w) = (u, w')"
      by (cases "refresh_loop p x (publishedNotes p) (0, emit (Sweep x) w)")
    from refresh_loop_extends [OF l] 0 have 1: "extends (\<lambda>ev. \<not> is_api ev) w w'"
      by (rule extends_trans [rotated])
    then have "extends (\<lambda>ev. \<not> is_api ev) w (emit (Notice (ProUpdated u)) w')"
      by (intro extends_emit) simp_all
    with 1 True l show ?thesis by (simp add: refreshProExpiration_def Let_def)
  qed
qed

lemma record_publish_extends:
  "extends (\<lambda>ev. \<not> is_api ev) w (snd (record_publish file existing result retried (p, w)))"
  unfolding record_publish_def Let_def
  by (auto simp: split_def intro!: extends_emit
           intro: extends_trans [OF extends_saveSettings [OF extends_refl]]
                  extends_trans [OF _ refreshProExpiration_extends]
                  extends_trans [OF extends_saveSettings [OF extends_refl] writeFrontmatter_extends])

lemma record_publish_notes:
  "publishedNotes (fst (record_publish file existing result retried (p, w))) =
     AList.update (f_path file)
       \<lparr>n_slug = r_slug result, n_url = r_url result, n_editToken = r_editToken result,
        n_publishedAt = clock w\<rparr> (publishedNotes p)"
  by (simp add: record_publish_def Let_def split_def)

lemma publish_call_result:
  assumes "publish_call a p markdown title slug editToken w = (res, w')"
  shows "same_host w w'"
    and "trace w' = trace w @ [Api (publish_request p markdown title slug editToken) (PublishReply res)]"
  using assms
  by (auto simp: publish_call_def call_publishNote_def call_trialPublish_def publish_request_def
                 same_host_def split: if_splits prod.splits)

lemma remote_publish_first_ok:
  "publish_call a p markdown title (map_option n_slug existing) (Option.bind existing n_editToken) w
     = (Inr result, w1)
   \<Longrightarrow> remote_publish a p markdown title existing w = (Inr (result, False), w1)"
  by (simp add: remote_publish_def)

lemma remote_publish_no_retry:
  "publish_call a p markdown title (map_option n_slug existing) (Option.bind existing n_editToken) w
     = (Inl e, w1)
   \<Longrightarrow> \<not> (existing \<noteq> None \<and> is_not_found e)
   \<Longrightarrow> remote_publish a p markdown title existing w = (Inl e, w1)"
  by (auto simp add: remote_publish_def)

lemma remote_publish_retry:
  "publish_call a p markdown title (map_option n_slug existing) (Option.bind existing n_editToken) w
     = (Inl e, w1)
   \<Longrightarrow> existing \<noteq> None \<Longrightarrow> is_not_found e
   \<Longrightarrow> publish_call a p markdown title None None w1 = (res, w2)
   \<Longrightarrow> remote_publish a p markdown title existing w =
         (case res of Inr result \<Rightarrow> Inr (result, True) | Inl e2 \<Rightarrow> Inl e2, w2)"
  by (auto simp add: remote_publish_def split: sum.splits)

lemma publishFile_failed:
  "prepare a file p w0 = (Inr (markdown, title), w)
   \<Longrightarrow> remote_publish a p markdown title (map_of (publishedNotes p) (f_path file)) w = (Inl e, w1)
   \<Longrightarrow> publishFile a file (p, w0) = (p, emit (Notice (Failed (message e))) w1)"
  by (simp add: publishFile_def)

lemma publishFile_succeeded:
  "prepare a file p w0 = (Inr (markdown, title), w)
   \<Longrightarrow> remote_publish a p markdown title (map_of (publishedNotes p) (f_path file)) w
         = (Inr (result, retried), w1)
   \<Longrightarrow> publishFile a file (p, w0)
       = record_publish file (map_of (publishedNotes p) (f_path file)) result retried (p, w1)"
  by (simp add: publishFile_def)

text \<open>
  Claim C10.  When the remote call of a publish attempt ultimately fails (the first call
  fails and there is no retry, or the retry fails too), the plugin state is what it was:
  the published-notes mapping is unchanged, a path with a record keeps its slug, url, edit
  token and timestamp, a path without a record gains none, and nothing is persisted.
\<close>

theorem failed_publish_keeps_records:
  fixes a :: "'srv api"
  assumes prepared: "prepare a file p w0 = (Inr (markdown, title), w)"
    and failed: "publish_call a p markdown title
                   (map_option n_slug (map_of (publishedNotes p) (f_path file)))
                   (Option.bind (map_of (publishedNotes p) (f_path file)) n_editToken) w
                 = (Inl e, w1)"
    and retry_failed: "map_of (publishedNotes p) (f_path file) \<noteq> None \<and> is_not_found e
                 \<longrightarrow> (\<exists>e2. fst (publish_call a p markdown title None None w1) = Inl e2)"
  shows "fst (publishFile a file (p, w0)) = p
         \<and> persisted (snd (publishFile a file (p, w0))) = persisted w0"
proof -
  let ?existing = "map_of (publishedNotes p) (f_path file)"
  have h0: "persisted w = persisted w0"
    using prepare_grows [OF prepared] by (simp add: grows_def same_host_def)
  have h1: "persisted w1 = persisted w"
    using publish_call_result(1) [OF failed] by (simp add: same_host_def)
  show ?thesis
  proof (cases "?existing \<noteq> None \<and> is_not_found e")
    case False
    from remote_publish_no_retry [OF failed False] prepared h0 h1
    show ?thesis by (simp add: publishFile_failed)
  next
    case True
    with retry_failed obtain e2 where e2: "fst (publish_call a p markdown title None None w1) = Inl e2"
      by blast
    obtain w2 where r: "publish_call a p markdown title None None w1 = (Inl e2, w2)"
      using e2 by (cases "publish_call a p markdown title None None w1") simp
    have h2: "persisted w2 = persisted w1"
      using publish_call_result(1) [OF r] by (simp add: same_host_def)
    from remote_publish_retry [OF failed _ _ r] True
    have "remote_publish a p markdown title ?existing w = (Inl e2, w2)" by simp
    with prepared h0 h1 h2 show ?thesis by (simp add: publishFile_failed)
  qed
qed

text \<open>
  Claim C1.  For a document with a published record whose publish/update call fails: if
  the error message indicates "not found", exactly one more call is made, a fresh create
  with no slug and no edit token, and if it succeeds the record of the path holds the new
  slug and url; if the message does not indicate "not found", no further call is made,
  the state is unchanged and the error is shown to the user.
\<close>

theorem retry_on_not_found:
  fixes a :: "'srv api"
  assumes existing: "map_of (publishedNotes p) (f_path file) = Some ex"
    and prepared: "prepare a file p w0 = (Inr (markdown, title), w)"
    and failed: "publish_call a p markdown title (Some (n_slug ex)) (n_editToken ex) w = (Inl e, w1)"
  shows
    "(is_not_found e \<longrightarrow>
        publish_calls (trace (snd (publishFile a file (p, w0)))) =
          publish_calls (trace w0)
          @ [publish_request p markdown title (Some (n_slug ex)) (n_editToken ex),
             publish_request p markdown title None None]
        \<and> (\<forall>result w2. publish_call a p markdown title None None w1 = (Inr result, w2) \<longrightarrow>
             map_of (publishedNotes (fst (publishFile a file (p, w0)))) (f_path file) =
               Some \<lparr>n_slug = r_slug result, n_url = r_url result,
                     n_editToken = r_editToken result, n_publishedAt = clock w2\<rparr>))
     \<and> (\<not> is_not_found e \<longrightarrow>
        publish_calls (trace (snd (publishFile a file (p, w0)))) =
          publish_calls (trace w0)
          @ [publish_request p markdown title (Some (n_slug ex)) (n_editToken ex)]
        \<and> fst (publishFile a file (p, w0)) = p
        \<and> last (trace (snd (publishFile a file (p, w0)))) = Notice (Failed (message e)))"
proof -
  let ?existing = "map_of (publishedNotes p) (f_path file)"
  let ?first = "publish_request p markdown title (Some (n_slug ex)) (n_editToken ex)"
  let ?second = "publish_request p markdown title None None"
  have failed': "publish_call a p markdown title (map_option n_slug ?existing)
                   (Option.bind ?existing n_editToken) w = (Inl e, w1)"
    using failed existing by simp
  have c0: "publish_calls (trace w) = publish_calls (trace w0)"
    by (rule prepare_publish_calls [OF prepared])
  have c1: "publish_calls (trace w1) = publish_calls (trace w0) @ [?first]"
    using publish_call_result(2) [OF failed] c0
    by (simp add: publish_calls_append publish_request_def)
  have no_retry: "\<not> is_not_found e \<Longrightarrow> publishFile a file (p, w0) = (p, emit (Notice (Failed (message e))) w1)"
    using remote_publish_no_retry [OF failed'] prepared by (simp add: publishFile_failed)
  have retry: "is_not_found e \<Longrightarrow>
      publish_calls (trace (snd (publishFile a file (p, w0)))) = publish_calls (trace w0) @ [?first, ?second]
      \<and> (\<forall>result w2. publish_call a p markdown title None None w1 = (Inr result, w2) \<longrightarrow>
             map_of (publishedNotes (fst (publishFile a file (p, w0)))) (f_path file) =
               Some \<lparr>n_slug = r_slug result, n_url = r_url result,
                     n_editToken = r_editToken result, n_publishedAt = clock w2\<rparr>)"
  proof -
    assume nf: "is_not_found e"
    obtain res w2 where r: "publish_call a p markdown title None None w1 = (res, w2)"
      by (cases "publish_call a p markdown title None None w1")
    have c2: "publish_calls (trace w2) = publish_calls (trace w0) @ [?first, ?second]"
      using publish_call_result(2) [OF r] c1
      by (simp add: publish_calls_append publish_request_def)
    have rp: "remote_publish a p markdown title ?existing w =
         (case res of Inr result \<Rightarrow> Inr (result, True) | Inl e2 \<Rightarrow> Inl e2, w2)"
      using remote_publish_retry [OF failed' _ nf r] existing by simp
    show ?thesis
    proof (cases res)
      case (Inl e2)
      with rp prepared have "publishFile a file (p, w0) = (p, emit (Notice (Failed (message e2))) w2)"
        by (simp add: publishFile_failed)
      with c2 r Inl show ?thesis by (simp add: publish_calls_append)
    next
      case (Inr result)
      with rp prepared have pf: "publishFile a file (p, w0) = record_publish file ?existing result True (p, w2)"
        by (simp add: publishFile_succeeded)
      have "publish_calls (trace (snd (record_publish file ?existing result True (p, w2)))) = publish_calls (trace w2)"
        by (rule extends_publish_calls [OF record_publish_extends])
      with pf c2 r Inr show ?thesis
        by (simp add: record_publish_notes update_conv')
    qed
  qed
  from no_retry retry c1 show ?thesis by (auto simp: publish_calls_append)
qed

lemma prepare_clock: "prepare a file p w0 = (res, w) \<Longrightarrow> clock w = clock w0"
  by (drule prepare_grows) (simp add: grows_def same_host_def)

lemma publish_call_clock: "clock (snd (publish_call a p markdown title slug tok w)) = clock w"
  using publish_call_result(1) [of a p markdown title slug tok w]
  by (cases "publish_call a p markdown title slug tok w") (simp add: same_host_def)

theorem retry_on_not_found_witness:
  "publish_calls (trace (snd (publishFile (ex_api_expired (Some 90)) (ex_file ''notes/'' ''a'')
       (ex_plugin ''jb_key'' [(''notes/a.md'', ex_note ''old'' None)], ex_world (\<lambda>p. Inr ''Hello'')))))
     = [PublishNote ''jb_key'' (''# a'' @ [LF, LF] @ ''Hello'') ''a'' (Some ''old''),
        PublishNote ''jb_key'' (''# a'' @ [LF, LF] @ ''Hello'') ''a'' None]
   \<and> map_of (publishedNotes (fst (publishFile (ex_api_expired (Some 90)) (ex_file ''notes/'' ''a'')
       (ex_plugin ''jb_key'' [(''notes/a.md'', ex_note ''old'' None)], ex_world (\<lambda>p. Inr ''Hello'')))))
       ''notes/a.md''
     = Some \<lparr>n_slug = ''fresh'', n_url = ''https://share.jotbird.com/fresh'', n_editToken = None,
             n_publishedAt = ''2026-02-01T00:00:00.000Z''\<rparr>
   \<and> publish_calls (trace (snd (publishFile (ex_api_down ''Publish: Rate limit exceeded'')
       (ex_file ''notes/'' ''a'')
       (ex_plugin [] [(''notes/a.md'', ex_note ''old'' (Some ''tok''))], ex_world (\<lambda>p. Inr ''Hello'')))))
     = [TrialPublish ''device-1'' (''# a'' @ [LF, LF] @ ''Hello'') ''a'' (Some ''old'') (Some ''tok'')]
   \<and> fst (publishFile (ex_api_down ''Publish: Rate limit exceeded'') (ex_file ''notes/'' ''a'')
       (ex_plugin [] [(''notes/a.md'', ex_note ''old'' (Some ''tok''))], ex_world (\<lambda>p. Inr ''Hello'')))
     = ex_plugin [] [(''notes/a.md'', ex_note ''old'' (Some ''tok''))]
   \<and> last (trace (snd (publishFile (ex_api_down ''Publish: Rate limit exceeded'')
       (ex_file ''notes/'' ''a'')
       (ex_plugin [] [(''notes/a.md'', ex_note ''old'' (Some ''tok''))], ex_world (\<lambda>p. Inr ''Hello'')))))
     = Notice (Failed ''Publish: Rate limit exceeded'')"
proof -
  let ?f = "ex_file ''notes/'' ''a''"
  let ?wi = "ex_world (\<lambda>p. Inr ''Hello'')"
  let ?md = "''# a'' @ [LF, LF] @ ''Hello''"
  have fp: "f_path ?f = ''notes/a.md''" by (simp add: ex_file_def)
  have t0: "publish_calls (trace ?wi) = []" by (simp add: ex_world_def)
  have expired:
    "publish_calls (trace (snd (publishFile (ex_api_expired (Some 90)) ?f
         (ex_plugin ''jb_key'' [(''notes/a.md'', ex_note ''old'' None)], ?wi))))
       = [PublishNote ''jb_key'' ?md ''a'' (Some ''old''), PublishNote ''jb_key'' ?md ''a'' None]
     \<and> map_of (publishedNotes (fst (publishFile (ex_api_expired (Some 90)) ?f
         (ex_plugin ''jb_key'' [(''notes/a.md'', ex_note ''old'' None)], ?wi)))) ''notes/a.md''
       = Some \<lparr>n_slug = ''fresh'', n_url = ''https://share.jotbird.com/fresh'', n_editToken = None,
               n_publishedAt = ''2026-02-01T00:00:00.000Z''\<rparr>"
  proof -
    let ?a = "ex_api_expired (Some 90)"
    let ?p = "ex_plugin ''jb_key'' [(''notes/a.md'', ex_note ''old'' None)]"
    let ?wp = "snd (prepare ?a ?f ?p ?wi)"
    let ?wx = "snd (publish_call ?a ?p ?md ''a'' (Some (n_slug (ex_note ''old'' None)))
                      (n_editToken (ex_note ''old'' None)) ?wp)"
    let ?wy = "snd (publish_call ?a ?p ?md ''a'' None None ?wx)"
    have existing: "map_of (publishedNotes ?p) (f_path ?f) = Some (ex_note ''old'' None)"
      by (simp add: ex_plugin_def ex_file_def)
    have "fst (prepare ?a ?f ?p ?wi) = Inr (?md, ''a'')" by code_simp
    then have prepared: "prepare ?a ?f ?p ?wi = (Inr (?md, ''a''), ?wp)"
      by (simp add: prod_eq_iff)
    have failed: "publish_call ?a ?p ?md ''a'' (Some (n_slug (ex_note ''old'' None)))
                    (n_editToken (ex_note ''old'' None)) ?wp
                  = (Inl (JsError ''Publish: Document not found''), ?wx)"
      by (simp add: prod_eq_iff publish_call_def call_publishNote_def ex_api_expired_def
                    ex_plugin_def DEFAULT_SETTINGS_def split_def)
    have nf: "is_not_found (JsError ''Publish: Document not found'')" by code_simp
    have retried: "publish_call ?a ?p ?md ''a'' None None ?wx
                   = (Inr (ex_response ''fresh'' (Some 90)), ?wy)"
      by (simp add: prod_eq_iff publish_call_def call_publishNote_def ex_api_expired_def
                    ex_plugin_def DEFAULT_SETTINGS_def split_def)
    have clk: "clock ?wy = ''2026-02-01T00:00:00.000Z''"
      using prepare_clock [OF prepared] by (simp add: publish_call_clock ex_world_def)
    have req: "publish_request ?p ?md ''a'' (Some (n_slug (ex_note ''old'' None)))
                 (n_editToken (ex_note ''old'' None))
               = PublishNote ''jb_key'' ?md ''a'' (Some ''old'')"
              "publish_request ?p ?md ''a'' None None = PublishNote ''jb_key'' ?md ''a'' None"
      by (simp_all add: publish_request_def ex_plugin_def DEFAULT_SETTINGS_def ex_note_def)
    note retry = retry_on_not_found [OF existing prepared failed, THEN conjunct1, rule_format, OF nf]
    from retry [THEN conjunct1] retry [THEN conjunct2, rule_format, OF retried]
    show ?thesis
      unfolding clk req t0 fp by (simp add: ex_response_def)
  qed
  have limited:
    "publish_calls (trace (snd (publishFile (ex_api_down ''Publish: Rate limit exceeded'') ?f
         (ex_plugin [] [(''notes/a.md'', ex_note ''old'' (Some ''tok''))], ?wi))))
       = [TrialPublish ''device-1'' ?md ''a'' (Some ''old'') (Some ''tok'')]
     \<and> fst (publishFile (ex_api_down ''Publish: Rate limit exceeded'') ?f
         (ex_plugin [] [(''notes/a.md'', ex_note ''old'' (Some ''tok''))], ?wi))
       = ex_plugin [] [(''notes/a.md'', ex_note ''old'' (Some ''tok''))]
     \<and> last (trace (snd (publishFile (ex_api_down ''Publish: Rate limit exceeded'') ?f
         (ex_plugin [] [(''notes/a.md'', ex_note ''old'' (Some ''tok''))], ?wi))))
       = Notice (Failed ''Publish: Rate limit exceeded'')"
  proof -
    let ?a = "ex_api_down ''Publish: Rate limit exceeded''"
    let ?p = "ex_plugin [] [(''notes/a.md'', ex_note ''old'' (Some ''tok''))]"
    let ?wp = "snd (prepare ?a ?f ?p ?wi)"
    let ?wx = "snd (publish_call ?a ?p ?md ''a'' (Some (n_slug (ex_note ''old'' (Some ''tok''))))
                      (n_editToken (ex_note ''old'' (Some ''tok''))) ?wp)"
    have existing: "map_of (publishedNotes ?p) (f_path ?f) = Some (ex_note ''old'' (Some ''tok''))"
      by (simp add: ex_plugin_def ex_file_def)
    have "fst (prepare ?a ?f ?p ?wi) = Inr (?md, ''a'')" by code_simp
    then have prepared: "prepare ?a ?f ?p ?wi = (Inr (?md, ''a''), ?wp)"
      by (simp add: prod_eq_iff)
    have failed: "publish_call ?a ?p ?md ''a'' (Some (n_slug (ex_note ''old'' (Some ''tok''))))
                    (n_editToken (ex_note ''old'' (Some ''tok''))) ?wp
                  = (Inl (JsError ''Publish: Rate limit exceeded''), ?wx)"
      by (simp add: prod_eq_iff publish_call_def call_trialPublish_def ex_api_down_def
                    ex_plugin_def DEFAULT_SETTINGS_def split_def)
    have other: "\<not> is_not_found (JsError ''Publish: Rate limit exceeded'')" by code_simp
    have req: "publish_request ?p ?md ''a'' (Some (n_slug (ex_note ''old'' (Some ''tok''))))
                 (n_editToken (ex_note ''old'' (Some ''tok'')))
               = TrialPublish ''device-1'' ?md ''a'' (Some ''old'') (Some ''tok'')"
      by (simp add: publish_request_def ex_plugin_def DEFAULT_SETTINGS_def ex_note_def)
    have msg: "message (JsError ''Publish: Rate limit exceeded'') = ''Publish: Rate limit exceeded''"
      by (simp add: message_def)
    from retry_on_not_found [OF existing prepared failed, THEN conjunct2, rule_format, OF other]
    show ?thesis
      unfolding req t0 msg by simp
  qed
  from expired limited show ?thesis by simp
qed

theorem failed_publish_keeps_records_witness:
  "fst (publishFile (ex_api_down ''Publish: Not Found'') (ex_file ''notes/'' ''a'')
       (ex_plugin [] [(''notes/a.md'', ex_note ''old'' (Some ''tok''))], ex_world (\<lambda>p. Inr ''Hello'')))
     = ex_plugin [] [(''notes/a.md'', ex_note ''old'' (Some ''tok''))]
   \<and> persisted (snd (publishFile (ex_api_down ''Publish: Not Found'') (ex_file ''notes/'' ''a'')
       (ex_plugin [] [(''notes/a.md'', ex_note ''old'' (Some ''tok''))], ex_world (\<lambda>p. Inr ''Hello''))))
     = None"
proof -
  let ?a = "ex_api_down ''Publish: Not Found''"
  let ?f = "ex_file ''notes/'' ''a''"
  let ?p = "ex_plugin [] [(''notes/a.md'', ex_note ''old'' (Some ''tok''))]"
  let ?wi = "ex_world (\<lambda>p. Inr ''Hello'')"
  let ?md = "''# a'' @ [LF, LF] @ ''Hello''"
  let ?wp = "snd (prepare ?a ?f ?p ?wi)"
  let ?ex = "map_of (publishedNotes ?p) (f_path ?f)"
  let ?wx = "snd (publish_call ?a ?p ?md ''a'' (map_option n_slug ?ex) (Option.bind ?ex n_editToken) ?wp)"
  have "fst (prepare ?a ?f ?p ?wi) = Inr (?md, ''a'')" by code_simp
  then have prepared: "prepare ?a ?f ?p ?wi = (Inr (?md, ''a''), ?wp)"
    by (simp add: prod_eq_iff)
  have failed: "publish_call ?a ?p ?md ''a'' (map_option n_slug ?ex) (Option.bind ?ex n_editToken) ?wp
                = (Inl (JsError ''Publish: Not Found''), ?wx)"
    by (simp add: prod_eq_iff publish_call_def call_trialPublish_def ex_api_down_def
                  ex_plugin_def DEFAULT_SETTINGS_def split_def)
  have nf: "?ex \<noteq> None \<and> is_not_found (JsError ''Publish: Not Found'')" by code_simp
  have retry_failed: "?ex \<noteq> None \<and> is_not_found (JsError ''Publish: Not Found'')
      \<longrightarrow> (\<exists>e2. fst (publish_call ?a ?p ?md ''a'' None None ?wx) = Inl e2)"
    by (simp add: publish_call_def call_trialPublish_def ex_api_down_def
                  ex_plugin_def DEFAULT_SETTINGS_def split_def)
  from failed_publish_keeps_records [OF prepared failed retry_failed] nf
  show ?thesis by (simp add: ex_world_def)
qed

subsection \<open>The mirrored metadata header\<close>

lemma frontmatter_mutator_link:
  "map_of (frontmatter_mutator u expiresAt ttlDays fm) ''jotbird_link'' = Some u"
  by (simp add: frontmatter_mutator_def Let_def update_conv' delete_conv')

lemma frontmatter_mutator_expires:
  "map_of (frontmatter_mutator u expiresAt ttlDays fm) ''jotbird_expires''
     = Some (if falsy ttlDays then ''never'' else take 10 expiresAt)"
  by (simp add: frontmatter_mutator_def Let_def update_conv' delete_conv')

lemma processFrontMatter_fields [simp]:
  "entries (processFrontMatter file fn w) = entries w"
  "frontmatter_fails (processFrontMatter file fn w) = frontmatter_fails w"
  "srv (processFrontMatter file fn w) = srv w"
  "clock (processFrontMatter file fn w) = clock w"
  "persisted (processFrontMatter file fn w) = persisted w"
  by (simp_all add: processFrontMatter_def Let_def)

lemma processFrontMatter_other:
  "q \<noteq> f_path file \<Longrightarrow> frontmatter (processFrontMatter file fn w) q = frontmatter w q"
  by (simp add: processFrontMatter_def Let_def)

lemma processFrontMatter_written:
  "\<not> frontmatter_fails w (f_path file)
   \<Longrightarrow> frontmatter (processFrontMatter file fn w) (f_path file) = fn (frontmatter w (f_path file))"
  by (simp add: processFrontMatter_def Let_def)

lemma writeFrontmatter_fields [simp]:
  "entries (writeFrontmatter p file u x t w) = entries w"
  "frontmatter_fails (writeFrontmatter p file u x t w) = frontmatter_fails w"
  "srv (writeFrontmatter p file u x t w) = srv w"
  "clock (writeFrontmatter p file u x t w) = clock w"
  "persisted (writeFrontmatter p file u x t w) = persisted w"
  by (simp_all add: writeFrontmatter_def)

lemma writeFrontmatter_other:
  "q \<noteq> f_path file \<Longrightarrow> frontmatter (writeFrontmatter p file u x t w) q = frontmatter w q"
  by (simp add: writeFrontmatter_def processFrontMatter_other)

lemma writeFrontmatter_written:
  "storeFrontmatter (settings p) \<Longrightarrow> \<not> frontmatter_fails w (f_path file)
   \<Longrightarrow> frontmatter (writeFrontmatter p file u x t w) (f_path file)
       = frontmatter_mutator u x t (frontmatter w (f_path file))"
  by (simp add: writeFrontmatter_def processFrontMatter_written)

lemma getAbstractFileByPath_path:
  "getAbstractFileByPath w q = Some (AFile file) \<Longrightarrow> f_path file = q"
  by (auto simp: getAbstractFileByPath_def split: option.splits entry.splits)

lemma refresh_loop_excluded:
  "refresh_loop p x ns (u, w) = (u', w') \<Longrightarrow> frontmatter w' x = frontmatter w x"
proof (induction ns arbitrary: u w)
  case Nil
  then show ?case by simp
next
  case (Cons kv ns)
  obtain q nt where kv: "kv = (q, nt)" by (cases kv)
  show ?case using Cons.prems unfolding kv
    by (auto split: if_splits option.splits abstract_file.splits
             dest!: Cons.IH getAbstractFileByPath_path simp: writeFrontmatter_other)
qed

lemma refreshProExpiration_excluded:
  "frontmatter (refreshProExpiration p x w) x = frontmatter w x"
proof (cases "storeFrontmatter (settings p)")
  case False
  then show ?thesis by (simp add: refreshProExpiration_def Let_def)
next
  case True
  obtain u w' where l: "refresh_loop p x (publishedNotes p) (0, emit (Sweep x) w) = (u, w')"
    by (cases "refresh_loop p x (publishedNotes p) (0, emit (Sweep x) w)")
  from refresh_loop_excluded [OF l] True l show ?thesis
    by (simp add: refreshProExpiration_def Let_def)
qed

lemma record_publish_frontmatter:
  assumes "storeFrontmatter (settings p)" and "\<not> frontmatter_fails w (f_path file)"
  shows "frontmatter (snd (record_publish file existing result retried (p, w))) (f_path file)
         = frontmatter_mutator (r_url result)
             (case r_expiresAt result of None \<Rightarrow> [] | Some x \<Rightarrow> x) (r_ttlDays result)
             (frontmatter w (f_path file))"
  using assms
  by (simp add: record_publish_def Let_def split_def refreshProExpiration_excluded
                writeFrontmatter_written)

lemma remote_publish_grows:
  assumes "remote_publish a p markdown title existing w = (res, w')"
  shows "grows is_api w w'"
proof -
  have pc: "\<And>slug tok v r v'. publish_call a p markdown title slug tok v = (r, v') \<Longrightarrow> grows is_api v v'"
    using publish_call_result by (fastforce simp: grows_def)
  obtain r1 w1 where 1: "publish_call a p markdown title (map_option n_slug existing)
             (Option.bind existing n_editToken) w = (r1, w1)"
    by (cases "publish_call a p markdown title (map_option n_slug existing)
             (Option.bind existing n_editToken) w")
  obtain r2 w2 where 2: "publish_call a p markdown title None None w1 = (r2, w2)"
    by (cases "publish_call a p markdown title None None w1")
  from assms 1 2 have "w' = w1 \<or> w' = w2"
    by (auto simp: remote_publish_def split: sum.splits if_splits)
  with pc [OF 1] pc [OF 2] show ?thesis by (auto intro: grows_trans)
qed

text \<open>
  Claim C7, as amended.  On a successful publish with metadata mirroring enabled and a
  header that can be written, the link key of the document's header is the returned url,
  and the expiration key is "never" when the response's ttlDays is null or 0, and
  otherwise the first ten characters of the response's expiry timestamp (of the empty
  string when the response has none).
\<close>

theorem mirrored_expiration:
  fixes a :: "'srv api"
  assumes prepared: "prepare a file p w0 = (Inr (markdown, title), w)"
    and published: "remote_publish a p markdown title (map_of (publishedNotes p) (f_path file)) w
                    = (Inr (result, retried), w1)"
    and mirroring: "storeFrontmatter (settings p)"
    and writable: "\<not> frontmatter_fails w0 (f_path file)"
  shows
    "map_of (frontmatter (snd (publishFile a file (p, w0))) (f_path file)) ''jotbird_link''
       = Some (r_url result)
     \<and> map_of (frontmatter (snd (publishFile a file (p, w0))) (f_path file)) ''jotbird_expires''
       = Some (if r_ttlDays result = None \<or> r_ttlDays result = Some 0 then ''never''
               else take 10 (case r_expiresAt result of None \<Rightarrow> [] | Some x \<Rightarrow> x))"
proof -
  have "frontmatter_fails w1 = frontmatter_fails w0"
    using prepare_grows [OF prepared] remote_publish_grows [OF published]
    by (simp add: grows_def same_host_def)
  with writable have "\<not> frontmatter_fails w1 (f_path file)" by simp
  from record_publish_frontmatter [OF mirroring this]
  show ?thesis
    by (simp add: publishFile_succeeded [OF prepared published]
                  frontmatter_mutator_link frontmatter_mutator_expires falsy_def)
qed

theorem mirrored_expiration_witness:
  "map_of (frontmatter (snd (publishFile (ex_api_expired (Some 90)) (ex_file ''notes/'' ''a'')
       (ex_plugin ''jb_key'' [], ex_world (\<lambda>p. Inr ''Hello'')))) ''notes/a.md'') ''jotbird_link''
     = Some ''https://share.jotbird.com/fresh''
   \<and> map_of (frontmatter (snd (publishFile (ex_api_expired (Some 90)) (ex_file ''notes/'' ''a'')
       (ex_plugin ''jb_key'' [], ex_world (\<lambda>p. Inr ''Hello'')))) ''notes/a.md'') ''jotbird_expires''
     = Some ''2026-05-10''
   \<and> map_of (frontmatter (snd (publishFile (ex_api_expired None) (ex_file ''notes/'' ''a'')
       (ex_plugin ''jb_key'' [], ex_world (\<lambda>p. Inr ''Hello'')))) ''notes/a.md'') ''jotbird_expires''
     = Some ''never''"
proof -
  let ?f = "ex_file ''notes/'' ''a''"
  let ?p = "ex_plugin ''jb_key'' []"
  let ?wi = "ex_world (\<lambda>p. Inr ''Hello'')"
  let ?md = "''# a'' @ [LF, LF] @ ''Hello''"
  have fp: "f_path ?f = ''notes/a.md''" by (simp add: ex_file_def)
  have mirroring: "storeFrontmatter (settings ?p)"
    by (simp add: ex_plugin_def DEFAULT_SETTINGS_def)
  have writable: "\<not> frontmatter_fails ?wi (f_path ?f)"
    by (simp add: ex_world_def)
  have mirrored: "map_of (frontmatter (snd (publishFile (ex_api_expired ttl) ?f (?p, ?wi))) ''notes/a.md'')
                    ''jotbird_link'' = Some ''https://share.jotbird.com/fresh''
      \<and> map_of (frontmatter (snd (publishFile (ex_api_expired ttl) ?f (?p, ?wi))) ''notes/a.md'')
            ''jotbird_expires'' = Some (if ttl = None \<or> ttl = Some 0 then ''never'' else ''2026-05-10'')"
    if known: "fst (prepare (ex_api_expired ttl) ?f ?p ?wi) = Inr (?md, ''a'')" for ttl
  proof -
    let ?a = "ex_api_expired ttl"
    let ?wp = "snd (prepare ?a ?f ?p ?wi)"
    let ?wx = "snd (remote_publish ?a ?p ?md ''a'' (map_of (publishedNotes ?p) (f_path ?f)) ?wp)"
    from known have prepared: "prepare ?a ?f ?p ?wi = (Inr (?md, ''a''), ?wp)"
      by (simp add: prod_eq_iff)
    have published: "remote_publish ?a ?p ?md ''a'' (map_of (publishedNotes ?p) (f_path ?f)) ?wp
                     = (Inr (ex_response ''fresh'' ttl, False), ?wx)"
      by (simp add: prod_eq_iff remote_publish_def publish_call_def call_publishNote_def
                    ex_api_expired_def ex_plugin_def DEFAULT_SETTINGS_def split_def)
    from mirrored_expiration [OF prepared published mirroring writable]
    show ?thesis unfolding fp by (simp add: ex_response_def)
  qed
  have "fst (prepare (ex_api_expired (Some 90)) ?f ?p ?wi) = Inr (?md, ''a'')" by code_simp
  from mirrored [OF this]
  have free: "map_of (frontmatter (snd (publishFile (ex_api_expired (Some 90)) ?f (?p, ?wi))) ''notes/a.md'')
                    ''jotbird_link'' = Some ''https://share.jotbird.com/fresh''
      \<and> map_of (frontmatter (snd (publishFile (ex_api_expired (Some 90)) ?f (?p, ?wi))) ''notes/a.md'')
            ''jotbird_expires'' = Some ''2026-05-10''"
    by simp
  have "fst (prepare (ex_api_expired None) ?f ?p ?wi) = Inr (?md, ''a'')" by code_simp
  from mirrored [OF this]
  have permanent: "map_of (frontmatter (snd (publishFile (ex_api_expired None) ?f (?p, ?wi))) ''notes/a.md'')
            ''jotbird_expires'' = Some ''never''"
    by simp
  from free permanent show ?thesis by simp
qed

text \<open>
  Claim C7 as stated fails on a response whose ttlDays is 0: ttlDays is not null and the
  expiry timestamp has the date portion 2026-05-10, yet the header says "never".
\<close>

theorem mirrored_expiration_counterexample:
  "r_ttlDays (ex_response ''fresh'' (Some 0)) \<noteq> None
   \<and> r_expiresAt (ex_response ''fresh'' (Some 0)) = Some ''2026-05-10T00:00:00.000Z''
   \<and> map_of (publishedNotes (fst (publishFile (ex_api_expired (Some 0)) (ex_file ''notes/'' ''a'')
         (ex_plugin ''jb_key'' [], ex_world (\<lambda>p. Inr ''Hello''))))) ''notes/a.md''
       = Some \<lparr>n_slug = ''fresh'', n_url = ''https://share.jotbird.com/fresh'', n_editToken = None,
               n_publishedAt = ''2026-02-01T00:00:00.000Z''\<rparr>
   \<and> map_of (frontmatter (snd (publishFile (ex_api_expired (Some 0)) (ex_file ''notes/'' ''a'')
         (ex_plugin ''jb_key'' [], ex_world (\<lambda>p. Inr ''Hello'')))) ''notes/a.md'') ''jotbird_expires''
       = Some ''never''"
  by code_simp

subsection \<open>Resolving an image reference\<close>

text \<open>
  Claim C3, as amended.  Resolution returns the first document, in the order the store
  enumerates them, that meets at least one of the three criteria (its path equals the
  name, its filename equals the name, or its path ends with "/" + name), and no document
  exactly when none meets any of them.  Which of two matching documents is returned is
  decided by the enumeration order alone, not by which criterion each one meets.
\<close>

theorem resolution_first_match:
  "(resolveFile files fileName = None \<longleftrightarrow>
      (\<forall>f \<in> set files. \<not> (f_path f = fileName \<or> f_name f = fileName
                              \<or> endsWith (f_path f) (''/'' @ fileName))))
   \<and> (\<forall>f. resolveFile files fileName = Some f \<longleftrightarrow>
         (\<exists>i < length files. files ! i = f
            \<and> (f_path f = fileName \<or> f_name f = fileName \<or> endsWith (f_path f) (''/'' @ fileName))
            \<and> (\<forall>j < i. \<not> (f_path (files ! j) = fileName \<or> f_name (files ! j) = fileName
                              \<or> endsWith (f_path (files ! j)) (''/'' @ fileName)))))"
  unfolding resolveFile_def resolves_def [abs_def] find_None_iff find_Some_iff
  by auto

theorem resolution_first_match_witness:
  "resolveFile [ex_image ''attachments/'', ex_image []] ''img.png'' = Some (ex_image ''attachments/'')
   \<and> resolveFile [ex_file ''notes/'' ''a''] ''img.png'' = None"
proof -
  let ?fs = "[ex_image ''attachments/'', ex_image []]"
  have i: "(0::nat) < length ?fs" by simp
  have m: "?fs ! 0 = ex_image ''attachments/''
            \<and> (f_path (ex_image ''attachments/'') = ''img.png''
                \<or> f_name (ex_image ''attachments/'') = ''img.png''
                \<or> endsWith (f_path (ex_image ''attachments/'')) (''/'' @ ''img.png''))"
    by (simp add: ex_image_def)
  have n: "\<forall>f \<in> set [ex_file ''notes/'' ''a'']. \<not> (f_path f = ''img.png'' \<or> f_name f = ''img.png''
                              \<or> endsWith (f_path f) (''/'' @ ''img.png''))"
    by (simp add: ex_file_def endsWith_def)
  from resolution_first_match [of ?fs "''img.png''"] i m
  have "resolveFile ?fs ''img.png'' = Some (ex_image ''attachments/'')" by blast
  moreover from resolution_first_match [of "[ex_file ''notes/'' ''a'']" "''img.png''"] n
  have "resolveFile [ex_file ''notes/'' ''a''] ''img.png'' = None" by blast
  ultimately show ?thesis by simp
qed

text \<open>
  Claim C3 as stated fails: with a document in a folder whose filename is the name
  enumerated before a document whose path is the name, the first one is returned, although
  it meets only the second criterion and the other one meets the first; with the other
  enumeration order the result is the other document.
\<close>

theorem resolution_not_staged_counterexample:
  "resolveFile [ex_image ''attachments/'', ex_image []] ''img.png'' = Some (ex_image ''attachments/'')
   \<and> f_path (ex_image ''attachments/'') \<noteq> ''img.png''
   \<and> f_path (ex_image []) = ''img.png''
   \<and> spec_staged_resolution [ex_image ''attachments/'', ex_image []] ''img.png'' = Some (ex_image [])
   \<and> resolveFile [ex_image [], ex_image ''attachments/''] ''img.png'' = Some (ex_image [])"
  by (simp add: resolveFile_def resolves_def spec_staged_resolution_def ex_image_def endsWith_def)

subsection \<open>A tag after a heading marker\<close>

text \<open>
  Claim C4.  With tag stripping enabled the tag in \<open>## #tag\<close> should be removed.  The
  code keeps it: the text before the tag on its line trims to \<open>##\<close>, the callback takes the
  match for a heading marker and returns it unchanged.
\<close>

theorem tag_after_heading_marker_kept:
  "stripTags ''## #tag'' = ''## #tag''
   \<and> fst (processMarkdown (ex_api_down ''unused'') ''## #tag'' ''jb_key'' True (ex_world (\<lambda>p. Inr [])))
       = ''## #tag''"
  by code_simp

subsection \<open>Transforming twice\<close>

lemma trim_idem: "trim (trim s) = trim s"
proof -
  let ?P = "\<lambda>c. c \<in> set white_space"
  define d where "d = dropWhile ?P s"
  define r where "r = rev (dropWhile ?P (rev d))"
  define t where "t = rev (takeWhile ?P (rev d))"
  have d: "d = [] \<or> \<not> ?P (hd d)"
    unfolding d_def using hd_dropWhile [of ?P s] by blast
  have "rev (r @ t) = rev d"
    unfolding r_def t_def by simp
  then have split: "d = r @ t"
    by (simp only: rev_is_rev_conv)
  have r: "r = [] \<or> \<not> ?P (hd r)"
  proof (cases "r = []")
    case True
    then show ?thesis by simp
  next
    case False
    then have "hd d = hd r" "d \<noteq> []" unfolding split by simp_all
    with d show ?thesis by simp
  qed
  then have 1: "dropWhile ?P r = r"
    by (simp only: dropWhile_eq_self_iff)
  have 2: "dropWhile ?P (rev r) = rev r"
    unfolding r_def by simp
  have "trim s = r"
    unfolding trim_def r_def d_def by simp
  moreover have "trim r = r"
    unfolding trim_def 1 2 by simp
  ultimately show ?thesis by simp
qed

lemma wiki_loop_skip:
  "filter (\<lambda>(b, e, c). \<not> isInsideCode b regs \<and> rx_test imageExtensions (grp md c 1)) mts = []
   \<Longrightarrow> wiki_loop a k md regs mts (reps, w) = (reps, w)"
proof (induction mts)
  case Nil
  then show ?case by simp
next
  case (Cons m mts)
  obtain b e c where m: "m = (b, e, c)" by (cases m)
  from Cons show ?case unfolding m by (auto split: if_splits)
qed

lemma md_loop_skip:
  "filter (\<lambda>(b, e, c). \<not> isInsideCode b regs \<and> rx_test imageExtensions (grp md c 2)) mts = []
   \<Longrightarrow> md_loop a k md regs mts (reps, w) = (reps, w)"
proof (induction mts)
  case Nil
  then show ?case by simp
next
  case (Cons m mts)
  obtain b e c where m: "m = (b, e, c)" by (cases m)
  from Cons show ?case unfolding m by (auto split: if_splits)
qed

lemma processImages_no_refs:
  "local_image_refs md = [] \<Longrightarrow> processImages a md k w = (md, w)"
  by (simp add: local_image_refs_def processImages_def Let_def wiki_loop_skip md_loop_skip)

lemma processMarkdown_trimmed:
  "processMarkdown a content k flag w = (t, w1) \<Longrightarrow> trim t = t"
  by (auto simp: processMarkdown_def Let_def split_def trim_idem)

text \<open>What a match of each expression of the steps looks like in the text.\<close>

lemma ms_Seq_mem:
  "(e, c') \<in> set (ms s (Seq a b) (i, c))
   \<longleftrightarrow> (\<exists>k d. (k, d) \<in> set (ms s a (i, c)) \<and> (e, c') \<in> set (ms s b (k, d)))"
  by auto

lemma ms_Cls_mem:
  "(e, c') \<in> set (ms s (Cls cs) (i, c)) \<longleftrightarrow> i < length s \<and> s ! i \<in> set cs \<and> e = Suc i \<and> c' = c"
  by auto

lemma ms_NCls_mem:
  "(e, c') \<in> set (ms s (NCls cs) (i, c)) \<longleftrightarrow> i < length s \<and> s ! i \<notin> set cs \<and> e = Suc i \<and> c' = c"
  by auto

lemma ms_Eps_mem: "(e, c') \<in> set (ms s Eps (i, c)) \<longleftrightarrow> e = i \<and> c' = c"
  by auto

lemma ms_Grp_mem:
  "(e, c') \<in> set (ms s (Grp n r) (i, c)) \<Longrightarrow> \<exists>d. (e, d) \<in> set (ms s r (i, c))"
  by auto

lemma ms_opt_mem:
  "(e, c') \<in> set (ms s (rx_opt (Cls cs)) (i, c))
   \<longleftrightarrow> c' = c \<and> (e = i \<or> (e = Suc i \<and> i < length s \<and> s ! i \<in> set cs))"
  by (auto simp: rx_opt_def)

lemma seqs_Cons: "seqs (r # rs) = Seq r (seqs rs)"
  by (simp add: seqs_def)

lemma seqs_Nil: "seqs [] = Eps"
  by (simp add: seqs_def)

lemma lit_Cons: "lit (x # xs) = Seq (Cls [x]) (lit xs)"
  by (simp add: lit_def seqs_def)

lemma lit_Nil: "lit [] = Eps"
  by (simp add: lit_def seqs_def)

lemma occurs_at_Cons:
  "occurs_at (x # xs) t i \<longleftrightarrow> i < length t \<and> t ! i = x \<and> occurs_at xs t (Suc i)"
proof (cases "i < length t")
  case True
  then have "drop i t = t ! i # drop (Suc i) t"
    by (simp add: Cons_nth_drop_Suc)
  then show ?thesis using True
    by (auto simp: occurs_at_def slice_def)
next
  case False
  then show ?thesis by (simp add: occurs_at_def)
qed

lemma occurs_at_Nil: "occurs_at [] t i \<longleftrightarrow> i \<le> length t"
  by (simp add: occurs_at_def slice_def)

lemma ms_lit_mem:
  "(e, c') \<in> set (ms s (lit xs) (i, c)) \<Longrightarrow> i \<le> length s
   \<Longrightarrow> occurs_at xs s i \<and> e = i + length xs \<and> c' = c"
proof (induction xs arbitrary: i)
  case Nil
  then show ?case by (simp add: lit_Nil occurs_at_Nil)
next
  case (Cons x xs)
  from Cons.prems(1) have 1: "i < length s" "s ! i = x"
    and 2: "(e, c') \<in> set (ms s (lit xs) (Suc i, c))"
    by (auto simp: lit_Cons split: if_splits)
  from Cons.IH [OF 2] 1 show ?case
    by (simp add: occurs_at_Cons)
qed

lemma ms_Star_NCls:
  "(j, c') \<in> set (ms s (Star (NCls cs)) (i, c))
   \<Longrightarrow> i \<le> j \<and> (\<forall>k. i \<le> k \<and> k < j \<longrightarrow> k < length s \<and> s ! k \<notin> set cs)"
proof (induction "length s - i" arbitrary: i rule: less_induct)
  case less
  show ?case
  proof (cases "(j, c') = (i, c)")
    case True
    then show ?thesis by auto
  next
    case False
    with less.prems have i: "i < length s" "s ! i \<notin> set cs"
      and 2: "(j, c') \<in> set (ms s (Star (NCls cs)) (Suc i, c))"
      by (subst (asm) ms.simps(6), auto split: if_splits)+
    from i have "length s - Suc i < length s - i" by simp
    from less.hyps [OF this 2]
    have 3: "Suc i \<le> j" "\<And>k. Suc i \<le> k \<Longrightarrow> k < j \<Longrightarrow> k < length s \<and> s ! k \<notin> set cs"
      by simp_all
    have "k < length s \<and> s ! k \<notin> set cs" if "i \<le> k" "k < j" for k
      using that i 3(2) [of k] by (cases "k = i") simp_all
    with 3(1) show ?thesis by simp
  qed
qed

lemma ms_plus_NCls:
  assumes "(j, c') \<in> set (ms s (rx_plus (NCls cs)) (i, c))"
  shows "i < j \<and> (\<forall>k. i \<le> k \<and> k < j \<longrightarrow> k < length s \<and> s ! k \<notin> set cs)"
proof -
  from assms have i: "i < length s" "s ! i \<notin> set cs"
    and 2: "(j, c') \<in> set (ms s (Star (NCls cs)) (Suc i, c))"
    by (auto simp: rx_plus_def split: if_splits)
  from ms_Star_NCls [OF 2]
  have 3: "Suc i \<le> j" "\<And>k. Suc i \<le> k \<Longrightarrow> k < j \<Longrightarrow> k < length s \<and> s ! k \<notin> set cs"
    by simp_all
  have "k < length s \<and> s ! k \<notin> set cs" if "i \<le> k" "k < j" for k
    using that i 3(2) [of k] by (cases "k = i") simp_all
  with 3(1) show ?thesis by simp
qed


lemma occurs_at_bound: "occurs_at x t i \<Longrightarrow> i + length x \<le> length t"
  by (simp add: occurs_at_def)

lemma comment_shape:
  assumes "(e, c') \<in> set (ms s comment_rx (b, c))" and "b \<le> length s"
  shows "has_comment_span s"
proof -
  from assms(1) obtain k1 d1 k2 d2 where
    1: "(k1, d1) \<in> set (ms s (lit ''%%'') (b, c))"
    and 2: "(k2, d2) \<in> set (ms s (Lazy any_char) (k1, d1))"
    and 3: "(e, c') \<in> set (ms s (lit ''%%'') (k2, d2))"
    unfolding comment_rx_def seqs_Cons seqs_Nil ms_Seq_mem ms_Eps_mem by blast
  from ms_lit_mem [OF 1 assms(2)] have o1: "occurs_at ''%%'' s b" and k1: "k1 = b + 2"
    by simp_all
  from occurs_at_bound [OF o1] k1 have "k1 \<le> length s" by simp
  from ms_bounds [OF 2 this] have k2: "k1 \<le> k2" "k2 \<le> length s" by simp_all
  from ms_lit_mem [OF 3 k2(2)] have o2: "occurs_at ''%%'' s k2" by simp
  from occurs_at_bound [OF o1] occurs_at_bound [OF o2] k1 k2
  have "b \<in> {0..<length s}" "k2 \<in> {b + 2..<length s}" by simp_all
  with o1 o2 show ?thesis
    unfolding has_comment_span_def list_ex_iff set_upt by blast
qed

lemma plain_link_shape:
  assumes "(e, c') \<in> set (ms s plain_link_rx (b, c))" and "b \<le> length s"
  shows "has_wiki_link s"
proof -
  from assms(1) obtain k1 d1 k2 d2 where
    1: "(k1, d1) \<in> set (ms s (lit ''[['') (b, c))"
    and 2: "(k2, d2) \<in> set (ms s (Grp 1 (rx_plus (NCls '']''))) (k1, d1))"
    and 3: "(e, c') \<in> set (ms s (lit '']]'') (k2, d2))"
    unfolding plain_link_rx_def seqs_Cons seqs_Nil ms_Seq_mem ms_Eps_mem by blast
  from ms_lit_mem [OF 1 assms(2)] have o1: "occurs_at ''[['' s b" and k1: "k1 = b + 2"
    by simp_all
  from occurs_at_bound [OF o1] k1 have k1': "k1 \<le> length s" by simp
  from ms_Grp_mem [OF 2] obtain d where "(k2, d) \<in> set (ms s (rx_plus (NCls '']'')) (k1, d1))" ..
  from ms_plus_NCls [OF this]
  have k2: "k1 < k2" and inner: "\<And>k. k1 \<le> k \<Longrightarrow> k < k2 \<Longrightarrow> s ! k \<noteq> CHR '']''"
    by simp_all
  from ms_bounds [OF 2 k1'] have "k2 \<le> length s" by simp
  from ms_lit_mem [OF 3 this] have o2: "occurs_at '']]'' s k2" by simp
  from occurs_at_bound [OF o1] occurs_at_bound [OF o2] k1 k2
  have "b \<in> {0..<length s}" "k2 \<in> {b + 3..<length s}" by simp_all
  moreover from inner k1 have "\<forall>k \<in> {b + 2..<k2}. s ! k \<noteq> CHR '']''" by simp
  ultimately show ?thesis
    using o1 o2 unfolding has_wiki_link_def list_ex_iff list_all_iff set_upt by blast
qed

lemma aliased_link_shape:
  assumes "(e, c') \<in> set (ms s aliased_link_rx (b, c))" and "b \<le> length s"
  shows "has_wiki_link s"
proof -
  from assms(1) obtain k1 d1 k2 d2 k3 d3 k4 d4 where
    1: "(k1, d1) \<in> set (ms s (lit ''[['') (b, c))"
    and 2: "(k2, d2) \<in> set (ms s (Grp 1 (rx_plus (NCls '']|''))) (k1, d1))"
    and 3: "(k3, d3) \<in> set (ms s (lit ''|'') (k2, d2))"
    and 4: "(k4, d4) \<in> set (ms s (Grp 2 (rx_plus (NCls '']''))) (k3, d3))"
    and 5: "(e, c') \<in> set (ms s (lit '']]'') (k4, d4))"
    unfolding aliased_link_rx_def seqs_Cons seqs_Nil ms_Seq_mem ms_Eps_mem by blast
  from ms_lit_mem [OF 1 assms(2)] have o1: "occurs_at ''[['' s b" and k1: "k1 = b + 2"
    by simp_all
  from occurs_at_bound [OF o1] k1 have k1': "k1 \<le> length s" by simp
  from ms_Grp_mem [OF 2] obtain d where "(k2, d) \<in> set (ms s (rx_plus (NCls '']|'')) (k1, d1))" ..
  from ms_plus_NCls [OF this]
  have k2: "k1 < k2" and target: "\<And>k. k1 \<le> k \<Longrightarrow> k < k2 \<Longrightarrow> s ! k \<noteq> CHR '']''"
    by simp_all
  from ms_bounds [OF 2 k1'] have k2': "k2 \<le> length s" by simp
  from ms_lit_mem [OF 3 k2'] have bar: "occurs_at ''|'' s k2" and k3: "k3 = k2 + 1"
    by simp_all
  from bar have bar': "s ! k2 = CHR ''|''"
    by (simp add: occurs_at_Cons)
  from occurs_at_bound [OF bar] k3 have k3': "k3 \<le> length s" by simp
  from ms_Grp_mem [OF 4] obtain d' where "(k4, d') \<in> set (ms s (rx_plus (NCls '']'')) (k3, d3))" ..
  from ms_plus_NCls [OF this]
  have k4: "k3 < k4" and display: "\<And>k. k3 \<le> k \<Longrightarrow> k < k4 \<Longrightarrow> s ! k \<noteq> CHR '']''"
    by simp_all
  from ms_bounds [OF 4 k3'] have "k4 \<le> length s" by simp
  from ms_lit_mem [OF 5 this] have o2: "occurs_at '']]'' s k4" by simp
  have inner: "s ! k \<noteq> CHR '']''" if "b + 2 \<le> k" "k < k4" for k
  proof -
    consider "k < k2" | "k = k2" | "k3 \<le> k" using k3 by linarith
    then show ?thesis
    proof cases
      case 1
      with target [of k] that k1 show ?thesis by simp
    next
      case 2
      with bar' show ?thesis by simp
    next
      case 3
      with display [of k] that show ?thesis by simp
    qed
  qed
  from occurs_at_bound [OF o1] occurs_at_bound [OF o2] k1 k2 k3 k4
  have "b \<in> {0..<length s}" "k4 \<in> {b + 3..<length s}" by simp_all
  moreover from inner have "\<forall>k \<in> {b + 2..<k4}. s ! k \<noteq> CHR '']''" by simp
  ultimately show ?thesis
    using o1 o2 unfolding has_wiki_link_def list_ex_iff list_all_iff set_upt by blast
qed

lemma header_shape:
  assumes "(e, c') \<in> set (ms s frontmatter_rx (b, c))" and "b \<le> length s"
  shows "has_header s"
proof -
  from assms(1) obtain k0 d0 k1 d1 k2 d2 k3 d3 k4 d4 k5 d5 k6 d6 k7 d7 where
    0: "(k0, d0) \<in> set (ms s (Bol False) (b, c))"
    and 1: "(k1, d1) \<in> set (ms s (lit ''---'') (k0, d0))"
    and 2: "(k2, d2) \<in> set (ms s (rx_opt (Cls [CR])) (k1, d1))"
    and 3: "(k3, d3) \<in> set (ms s (Cls [LF]) (k2, d2))"
    and 4: "(k4, d4) \<in> set (ms s (Lazy any_char) (k3, d3))"
    and 5: "(k5, d5) \<in> set (ms s (rx_opt (Cls [CR])) (k4, d4))"
    and 6: "(k6, d6) \<in> set (ms s (Cls [LF]) (k5, d5))"
    and 7: "(k7, d7) \<in> set (ms s (lit ''---'') (k6, d6))"
    unfolding frontmatter_rx_def seqs_Cons seqs_Nil ms_Seq_mem by blast
  from 0 have k0: "k0 = 0" by (auto split: if_splits)
  from ms_lit_mem [OF 1] k0 have o1: "occurs_at ''---'' s 0" and k1: "k1 = 3"
    by simp_all
  from 2 k1 have k2: "k2 = 3 \<or> (k2 = 4 \<and> 3 < length s \<and> s ! 3 = CR)"
    unfolding ms_opt_mem by auto
  from 3 have k3: "k2 < length s" "s ! k2 = LF" "k3 = Suc k2"
    by (auto split: if_splits)
  then have "k3 \<le> length s" by simp
  from ms_bounds [OF 4 this] have k4: "k3 \<le> k4" "k4 \<le> length s" by simp_all
  from 5 have k5: "k4 \<le> k5" "k5 \<le> Suc k4"
    unfolding ms_opt_mem by auto
  from 6 have k6: "k5 < length s" "s ! k5 = LF" "k6 = Suc k5"
    by (auto split: if_splits)
  then have "k6 \<le> length s" by simp
  from ms_lit_mem [OF 7 this] have "occurs_at ''---'' s k6" by simp
  with k6 have closing: "occurs_at (LF # ''---'') s k5"
    by (simp add: occurs_at_Cons)
  from occurs_at_bound [OF closing] have k5': "k5 < length s" by simp
  from k2 show ?thesis
  proof
    assume "k2 = 3"
    with o1 k3 have "occurs_at (''---'' @ [LF]) s 0"
      by (simp add: occurs_at_Cons occurs_at_Nil eval_nat_numeral)
    moreover from \<open>k2 = 3\<close> k3 k4 k5 k5' have "k5 \<in> {4..<length s}" by simp
    ultimately show ?thesis using closing
      unfolding has_header_def list_ex_iff set_upt by blast
  next
    assume "k2 = 4 \<and> 3 < length s \<and> s ! 3 = CR"
    with o1 k3 have "occurs_at (''---'' @ [CR, LF]) s 0"
      by (simp add: occurs_at_Cons occurs_at_Nil eval_nat_numeral)
    moreover from \<open>k2 = 4 \<and> 3 < length s \<and> s ! 3 = CR\<close> k3 k4 k5 k5'
    have "k5 \<in> {5..<length s}" by simp
    ultimately show ?thesis using closing
      unfolding has_header_def list_ex_iff set_upt by blast
  qed
qed

text \<open>The matches \<open>exec\<close> and \<open>replace\<close> find are matches of the expression; a
  replacement that returns every match as it is, or finds none, returns the text.\<close>

lemma rx_exec_sound:
  "rx_exec r s i = Some (b, e, c) \<Longrightarrow> (e, c) \<in> set (ms s r (b, [])) \<and> b \<le> length s"
proof (induction r s i rule: rx_exec.induct)
  case (1 r s i)
  show ?case
  proof (cases "ms s r (i, [])")
    case Nil
    with "1.prems" "1.IH" show ?thesis
      by (subst (asm) rx_exec.simps) (auto split: if_splits)
  next
    case (Cons m rest)
    obtain e' c' where m: "m = (e', c')" by (cases m)
    from "1.prems" Cons m have "\<not> length s < i" and "b = i" "e = e'" "c = c'"
      by (subst (asm) rx_exec.simps, auto split: if_splits)+
    with Cons m show ?thesis by simp
  qed
qed

lemma rx_matches_sound:
  "(b, e, c) \<in> set (rx_matches r s i) \<Longrightarrow> (e, c) \<in> set (ms s r (b, [])) \<and> b \<le> length s"
proof (induction r s i rule: rx_matches.induct)
  case (1 r s i)
  show ?case
  proof (cases "rx_exec r s i")
    case None
    with "1.prems" show ?thesis
      by (subst (asm) rx_matches.simps) simp
  next
    case (Some m)
    obtain b' e' c' where m: "m = (b', e', c')" by (cases m)
    show ?thesis
    proof (cases "(b, e, c) = (b', e', c')")
      case True
      with Some m rx_exec_sound [of r s i b' e' c'] show ?thesis by simp
    next
      case False
      let ?n = "if b' < e' then e' else Suc e'"
      from "1.prems" Some m False
      have n: "i < ?n \<and> ?n \<le> length s" and mem: "(b, e, c) \<in> set (rx_matches r s ?n)"
        by (subst (asm) rx_matches.simps, auto simp: Let_def split: if_splits)+
      from "1.IH" [OF Some m [symmetric] refl refl n mem] show ?thesis .
    qed
  qed
qed

lemma slice_join: "pos \<le> b \<Longrightarrow> b \<le> e \<Longrightarrow> slice s pos b @ slice s b e @ drop e s = drop pos s"
proof -
  assume a: "pos \<le> b" "b \<le> e"
  have 1: "slice s b e @ drop e s = drop b s"
    using a(2) unfolding slice_def
    by (metis append_take_drop_id drop_drop le_add_diff_inverse2)
  have "slice s pos b @ drop b s = drop pos s"
    using a(1) unfolding slice_def
    by (metis append_take_drop_id drop_drop le_add_diff_inverse2)
  with 1 show ?thesis by simp
qed

lemma rx_build_kept:
  assumes "\<forall>(b, e, c) \<in> set (rx_matches r s i). f (b, e, c) = slice s b e" and "pos \<le> i"
  shows "rx_build f s pos (rx_matches r s i) = drop pos s"
  using assms
proof (induction r s i arbitrary: pos rule: rx_matches.induct)
  case (1 r s i)
  show ?case
  proof (cases "rx_exec r s i")
    case None
    then show ?thesis by (subst rx_matches.simps) simp
  next
    case (Some m)
    obtain b e c where m: "m = (b, e, c)" by (cases m)
    define n where "n = (if b < e then e else Suc e)"
    define rest where "rest = (if i < n \<and> n \<le> length s then rx_matches r s n else [])"
    have unfold: "rx_matches r s i = (b, e, c) # rest"
      using Some m by (subst rx_matches.simps) (simp add: Let_def n_def rest_def)
    from rx_exec_bounds [of r s i b e c] Some m have be: "i \<le> b" "b \<le> e" "e \<le> length s"
      by simp_all
    from "1.prems"(1) have here: "f (b, e, c) = slice s b e"
      and later: "\<forall>(b, e, c) \<in> set rest. f (b, e, c) = slice s b e"
      unfolding unfold by simp_all
    have "rx_build f s e rest = drop e s"
    proof (cases "i < n \<and> n \<le> length s")
      case True
      with later have kept: "\<forall>(b, e, c) \<in> set (rx_matches r s n). f (b, e, c) = slice s b e"
        by (simp add: rest_def)
      have "e \<le> n" by (simp add: n_def)
      from "1.IH" [OF Some m [symmetric] refl n_def True kept this] True show ?thesis
        by (simp add: rest_def)
    next
      case False
      then have "rest = []" unfolding rest_def by (rule if_not_P)
      then show ?thesis by simp
    qed
    with here be "1.prems"(2) show ?thesis
      unfolding unfold by (simp add: slice_join)
  qed
qed

lemma rx_replace_kept:
  "\<forall>(b, e, c) \<in> set (rx_matches r s 0). f (b, e, c) = slice s b e \<Longrightarrow> rx_replace r f s = s"
  using rx_build_kept [of r s 0 f 0] by (simp add: rx_replace_def)

lemma rx_replace_none:
  "(\<And>b e c. (e, c) \<in> set (ms s r (b, [])) \<Longrightarrow> b \<le> length s \<Longrightarrow> False) \<Longrightarrow> rx_replace r f s = s"
  by (rule rx_replace_kept) (auto dest: rx_matches_sound)

text \<open>A text without the construct a step rewrites is left as it is by that step.\<close>

lemma stripComments_plain: "\<not> has_comment_span t \<Longrightarrow> stripComments t = t"
  unfolding stripComments_def by (rule rx_replace_none) (auto dest: comment_shape)

lemma convertWikiLinks_plain: "\<not> has_wiki_link t \<Longrightarrow> convertWikiLinks t = t"
proof -
  assume a: "\<not> has_wiki_link t"
  have 1: "rx_replace aliased_link_rx f t = t" for f
    by (rule rx_replace_none) (use a in \<open>auto dest: aliased_link_shape\<close>)
  have 2: "rx_replace plain_link_rx f t = t" for f
    by (rule rx_replace_none) (use a in \<open>auto dest: plain_link_shape\<close>)
  show ?thesis
    by (simp add: convertWikiLinks_def Let_def 1 2)
qed

lemma stripFrontmatter_plain: "\<not> has_header t \<Longrightarrow> stripFrontmatter t = t"
proof -
  assume a: "\<not> has_header t"
  have "rx_exec frontmatter_rx t 0 = None"
  proof (cases "rx_exec frontmatter_rx t 0")
    case (Some m)
    obtain b e c where "m = (b, e, c)" by (cases m)
    with Some rx_exec_sound [of frontmatter_rx t 0 b e c] header_shape [of e c t b "[]"] a
    show ?thesis by simp
  qed simp
  then show ?thesis by (simp add: stripFrontmatter_def)
qed

lemma stripTags_plain: "removable_tags t = [] \<Longrightarrow> stripTags t = t"
  unfolding stripTags_def removable_tags_def
  by (rule rx_replace_kept) (auto simp: filter_empty_conv)

text \<open>A match of the tag expression holds a \<open>#\<close>, so a text without one has no removable
  tag.\<close>

lemma tag_shape:
  assumes "(e, c') \<in> set (ms s tag_rx (b, c))" and "b \<le> length s"
  shows "CHR ''#'' \<in> set s"
proof -
  from assms(1) obtain k1 d1 k2 d2 where
    1: "(k1, d1) \<in> set (ms s (Grp 1 (Alt (Bol True) (Cls white_space))) (b, c))"
    and 2: "(k2, d2) \<in> set (ms s (lit ''#'') (k1, d1))"
    unfolding tag_rx_def seqs_Cons seqs_Nil ms_Seq_mem by blast
  from ms_bounds [OF 1 assms(2)] have "k1 \<le> length s" by simp
  from ms_lit_mem [OF 2 this] have "occurs_at ''#'' s k1" by simp
  then have "k1 < length s" "s ! k1 = CHR ''#''"
    by (simp_all add: occurs_at_Cons)
  then show ?thesis by (metis nth_mem)
qed

lemma no_hash_no_tag: "CHR ''#'' \<notin> set t \<Longrightarrow> removable_tags t = []"
proof -
  assume a: "CHR ''#'' \<notin> set t"
  have "m \<notin> set (rx_matches tag_rx t 0)" for m
  proof
    assume m: "m \<in> set (rx_matches tag_rx t 0)"
    obtain b e c where "m = (b, e, c)" by (cases m)
    with m rx_matches_sound [of b e c tag_rx t 0] tag_shape [of e c t b "[]"] a
    show False by simp
  qed
  then have "rx_matches tag_rx t 0 = []"
    by (cases "rx_matches tag_rx t 0") auto
  then show ?thesis by (simp add: removable_tags_def)
qed

text \<open>
  Claim C2, as amended.  Applying the transformation to its own output \<open>t\<close> gives \<open>t\<close> again
  whenever \<open>t\<close> does not begin with a metadata header (a first line \<open>---\<close> and a later line
  beginning with \<open>---\<close>), contains no comment span (\<open>%%\<close> followed later, without overlap, by
  another \<open>%%\<close>), has no local image reference, contains no wiki link (\<open>[[\<close>, one or more
  characters other than \<open>]\<close>, \<open>]]\<close>) and, with tag stripping on, no tag the tag step
  removes.  Both values of the tag-stripping flag are covered.
\<close>

theorem transform_twice:
  fixes a :: "'srv api"
  assumes once: "processMarkdown a content key flag w = (t, w1)"
    and no_header: "\<not> has_header t"
    and no_comment: "\<not> has_comment_span t"
    and no_image: "local_image_refs t = []"
    and no_link: "\<not> has_wiki_link t"
    and no_tag: "flag \<longrightarrow> removable_tags t = []"
  shows "processMarkdown a t key flag w1 = (t, w1)"
  using processMarkdown_trimmed [OF once] no_tag
  by (simp add: processMarkdown_def Let_def processImages_no_refs [OF no_image]
                stripFrontmatter_plain [OF no_header] stripComments_plain [OF no_comment]
                convertWikiLinks_plain [OF no_link] stripTags_plain)

theorem transform_twice_witness:
  "processMarkdown (ex_api_down ''unused'') ex_half_out ''jb_key'' True
     (snd (processMarkdown (ex_api_down ''unused'') ex_half ''jb_key'' True (ex_world (\<lambda>p. Inr []))))
   = (ex_half_out,
      snd (processMarkdown (ex_api_down ''unused'') ex_half ''jb_key'' True (ex_world (\<lambda>p. Inr []))))"
proof -
  let ?a = "ex_api_down ''unused''"
  let ?wi = "ex_world (\<lambda>p. Inr [])"
  let ?wx = "snd (processMarkdown ?a ex_half ''jb_key'' True ?wi)"
  have "fst (processMarkdown ?a ex_half ''jb_key'' True ?wi) = ex_half_out" by code_simp
  then have once: "processMarkdown ?a ex_half ''jb_key'' True ?wi = (ex_half_out, ?wx)"
    by (simp add: prod_eq_iff)
  have no_header: "\<not> has_header ex_half_out" by code_simp
  have no_comment: "\<not> has_comment_span ex_half_out" by code_simp
  have no_image: "local_image_refs ex_half_out = []" by code_simp
  have no_link: "\<not> has_wiki_link ex_half_out" by code_simp
  have "removable_tags ex_half_out = []" by code_simp
  then have no_tag: "True \<longrightarrow> removable_tags ex_half_out = []" by simp
  from transform_twice [OF once no_header no_comment no_image no_link no_tag]
  show ?thesis .
qed

text \<open>
  Claim C2 as stated fails.  The document below has a metadata header and a body in which
  two horizontal rules enclose a paragraph; it has no image reference (no exclamation mark
  at all).  The first application strips the header; the second strips the rule and the
  paragraph as if they were a header.
\<close>

theorem transform_twice_counterexample:
  "CHR ''!'' \<notin> set ex_two_rules
   \<and> local_image_refs (stripComments (stripFrontmatter ex_two_rules)) = []
   \<and> fst (processMarkdown (ex_api_down ''unused'') ex_two_rules ''jb_key'' False (ex_world (\<lambda>p. Inr [])))
       = ''---'' @ [LF] @ ''One'' @ [LF] @ ''---'' @ [LF] @ ''Two''
   \<and> fst (processMarkdown (ex_api_down ''unused'') (''---'' @ [LF] @ ''One'' @ [LF] @ ''---'' @ [LF] @ ''Two'')
           ''jb_key'' False (ex_world (\<lambda>p. Inr [])))
       = ''Two''
   \<and> fst (processMarkdown (ex_api_down ''unused'') ex_two_rules ''jb_key'' True (ex_world (\<lambda>p. Inr [])))
       = ''---'' @ [LF] @ ''One'' @ [LF] @ ''---'' @ [LF] @ ''Two''
   \<and> fst (processMarkdown (ex_api_down ''unused'') (''---'' @ [LF] @ ''One'' @ [LF] @ ''---'' @ [LF] @ ''Two'')
           ''jb_key'' True (ex_world (\<lambda>p. Inr [])))
       = ''Two''"
  by code_simp

text \<open>
  Each of these conditions is needed, also without a metadata header: converting
  a link can complete a comment span, unwrapping a link can leave a link, and removing a
  tag can leave a tag, which the second application then rewrites.  Each output of a
  first application below, and that of the document above, has the construct in question.
  Unwrapping a link can also leave an image reference where the input had none, which the
  second application then tries to upload.
\<close>

lemma transform_twice_conditions_needed:
  "fst (processMarkdown (ex_api_down ''unused'') ''%[[%|%]]% hidden %%'' ''jb_key'' False
          (ex_world (\<lambda>p. Inr []))) = ''%%% hidden %%''
   \<and> fst (processMarkdown (ex_api_down ''unused'') ''%%% hidden %%'' ''jb_key'' False
          (ex_world (\<lambda>p. Inr []))) = []
   \<and> fst (processMarkdown (ex_api_down ''unused'') ''[[[[a]]]]'' ''jb_key'' False
          (ex_world (\<lambda>p. Inr []))) = ''[[a]]''
   \<and> fst (processMarkdown (ex_api_down ''unused'') ''[[a]]'' ''jb_key'' False
          (ex_world (\<lambda>p. Inr []))) = ''a''
   \<and> fst (processMarkdown (ex_api_down ''unused'') ''x #a#b'' ''jb_key'' True
          (ex_world (\<lambda>p. Inr []))) = ''x #b''
   \<and> fst (processMarkdown (ex_api_down ''unused'') ''x #b'' ''jb_key'' True
          (ex_world (\<lambda>p. Inr []))) = ''x''
   \<and> has_comment_span ''%%% hidden %%''
   \<and> has_wiki_link ''[[a]]''
   \<and> removable_tags ''x #b'' \<noteq> []
   \<and> has_header (''---'' @ [LF] @ ''One'' @ [LF] @ ''---'' @ [LF] @ ''Two'')
   \<and> local_image_refs ''![[[x]]](a.png)'' = []
   \<and> fst (processMarkdown (ex_api_down ''unused'') ''![[[x]]](a.png)'' ''jb_key'' False
          (ex_world (\<lambda>p. Inr []))) = ''![x](a.png)''
   \<and> local_image_refs ''![x](a.png)'' \<noteq> []"
  by code_simp

subsection \<open>The claim sweep\<close>

lemma claim_events_append: "claim_events (xs @ ys) = claim_events xs @ claim_events ys"
  by (induction xs rule: claim_events.induct) auto

lemma claim_events_no_api: "list_all (\<lambda>ev. \<not> is_api ev) es \<Longrightarrow> claim_events es = []"
  by (induction es rule: claim_events.induct) auto

lemma extends_claim_events:
  "extends (\<lambda>ev. \<not> is_api ev) w w' \<Longrightarrow> claim_events (trace w') = claim_events (trace w)"
  by (auto simp: extends_def claim_events_append claim_events_no_api)

lemma call_claimDocument_trace:
  "call_claimDocument a k s t w = (res, w1)
   \<Longrightarrow> claim_events (trace w1) = claim_events (trace w) @ [((k, s, t), res)]"
  by (auto simp: call_claimDocument_def claim_events_append split: prod.splits)

lemma claim_loop_correct:
  assumes "claim_loop a todo ((p, w), k) = ((p', w'), k')"
    and "distinct (map fst todo)"
    and "\<forall>(q, nt) \<in> set todo. map_of (publishedNotes p) q = Some nt"
  shows "\<exists>X. claim_events (trace w') = claim_events (trace w) @ X
           \<and> list_all2 (\<lambda>(q, nt) (args, outcome).
                 args = (apiKey (settings p), n_slug nt, token_of nt)
                 \<and> map_of (publishedNotes p') q = Some (note_after_claim nt outcome)) todo X
           \<and> (\<forall>q. q \<notin> fst ` set todo \<longrightarrow> map_of (publishedNotes p') q = map_of (publishedNotes p) q)
           \<and> settings p' = settings p"
  using assms
proof (induction todo arbitrary: p w k)
  case Nil
  then show ?case by simp
next
  case (Cons kv todo)
  obtain q nt where kv: "kv = (q, nt)" by (cases kv)
  obtain res w1 where c: "call_claimDocument a (apiKey (settings p)) (n_slug nt) (token_of nt) w = (res, w1)"
    by (cases "call_claimDocument a (apiKey (settings p)) (n_slug nt) (token_of nt) w")
  define p1 where "p1 = (case res of Inl e \<Rightarrow> p
      | Inr result \<Rightarrow> p\<lparr>publishedNotes := AList.update q (claimed_note nt result) (publishedNotes p)\<rparr>)"
  define w2 where "w2 = (case res of Inl e \<Rightarrow> w1
      | Inr result \<Rightarrow> (case getAbstractFileByPath w1 q of
                       Some (AFile file) \<Rightarrow>
                         writeFrontmatter
                           (p\<lparr>publishedNotes := AList.update q (claimed_note nt result) (publishedNotes p)\<rparr>)
                           file (c_url result)
                           (case c_expiresAt result of None \<Rightarrow> [] | Some x \<Rightarrow> x)
                           (c_ttlDays result) w1
                     | _ \<Rightarrow> w1))"
  define k1 where "k1 = (case res of Inl e \<Rightarrow> k | Inr result \<Rightarrow> Suc k)"
  have step: "claim_loop a (kv # todo) ((p, w), k) = claim_loop a todo ((p1, w2), k1)"
  proof (cases res)
    case (Inl e)
    then show ?thesis unfolding kv p1_def w2_def k1_def using c by simp
  next
    case (Inr result)
    then show ?thesis unfolding kv p1_def w2_def k1_def claimed_note_def using c
      by (simp add: Let_def)
  qed
  have rest: "claim_loop a todo ((p1, w2), k1) = ((p', w'), k')"
    using Cons.prems(1) step by simp
  have q_fresh: "q \<notin> fst ` set todo" and dist: "distinct (map fst todo)"
    using Cons.prems(2) unfolding kv by auto
  have here: "map_of (publishedNotes p) q = Some nt"
    using Cons.prems(3) unfolding kv by simp
  have p1_q: "map_of (publishedNotes p1) q = Some (note_after_claim nt res)"
    using here by (cases res) (simp_all add: p1_def note_after_claim_def update_conv')
  have p1_other: "\<And>r. r \<noteq> q \<Longrightarrow> map_of (publishedNotes p1) r = map_of (publishedNotes p) r"
    by (cases res) (simp_all add: p1_def update_conv')
  have p1_settings: "settings p1 = settings p"
    by (cases res) (simp_all add: p1_def)
  have agree: "\<forall>(r, n) \<in> set todo. map_of (publishedNotes p1) r = Some n"
  proof (clarify)
    fix r n assume rn: "(r, n) \<in> set todo"
    then have "r \<noteq> q" using q_fresh by force
    with p1_other Cons.prems(3) rn show "map_of (publishedNotes p1) r = Some n" by auto
  qed
  have "extends (\<lambda>ev. \<not> is_api ev) w1 w2"
    by (cases res)
       (auto simp: w2_def split: option.splits abstract_file.splits intro: writeFrontmatter_extends)
  then have tr2: "claim_events (trace w2) = claim_events (trace w) @ [((apiKey (settings p), n_slug nt, token_of nt), res)]"
    using call_claimDocument_trace [OF c] by (simp add: extends_claim_events)
  from Cons.IH [OF rest dist agree] obtain X where
    X1: "claim_events (trace w') = claim_events (trace w2) @ X"
    and X2: "list_all2 (\<lambda>(q, nt) (args, outcome).
                 args = (apiKey (settings p1), n_slug nt, token_of nt)
                 \<and> map_of (publishedNotes p') q = Some (note_after_claim nt outcome)) todo X"
    and X3: "\<forall>r. r \<notin> fst ` set todo \<longrightarrow> map_of (publishedNotes p') r = map_of (publishedNotes p1) r"
    and X4: "settings p' = settings p1"
    by blast
  let ?X = "((apiKey (settings p), n_slug nt, token_of nt), res) # X"
  have "claim_events (trace w') = claim_events (trace w) @ ?X"
    using X1 tr2 by simp
  moreover have "list_all2 (\<lambda>(q, nt) (args, outcome).
                 args = (apiKey (settings p), n_slug nt, token_of nt)
                 \<and> map_of (publishedNotes p') q = Some (note_after_claim nt outcome)) (kv # todo) ?X"
    using X2 X3 q_fresh p1_q unfolding kv p1_settings by simp
  moreover have "\<forall>r. r \<notin> fst ` set (kv # todo) \<longrightarrow> map_of (publishedNotes p') r = map_of (publishedNotes p) r"
    using X3 p1_other unfolding kv by auto
  moreover have "settings p' = settings p"
    using X4 p1_settings by simp
  ultimately show ?case by blast
qed

text \<open>
  Claim C5.  With a credential configured, the claim sweep makes one claim call for each
  record carrying an edit token, in the order of the mapping and whatever the outcomes of
  the earlier calls; a record whose call succeeds is replaced by the server's slug and
  url with no edit token (and its old timestamp), a record whose call fails is left as it
  was, and the records without an edit token are untouched.
\<close>

theorem claim_sweep:
  fixes a :: "'srv api"
  assumes key: "apiKey (settings p) \<noteq> []"
    and keys: "distinct (map fst (publishedNotes p))"
    and toClaim: "toClaim = filter (\<lambda>(q, nt). has_token nt) (publishedNotes p)"
    and run: "claimAnonymousDocuments a (p, w) = (p', w')"
  shows
    "map fst (new_claims w w')
       = map (\<lambda>(q, nt). (apiKey (settings p), n_slug nt, token_of nt)) toClaim
     \<and> (\<forall>i < length toClaim.
          case snd (new_claims w w' ! i) of
            Inr result \<Rightarrow>
              map_of (publishedNotes p') (fst (toClaim ! i))
                = Some \<lparr>n_slug = c_slug result, n_url = c_url result, n_editToken = None,
                        n_publishedAt = n_publishedAt (snd (toClaim ! i))\<rparr>
          | Inl e \<Rightarrow> map_of (publishedNotes p') (fst (toClaim ! i)) = Some (snd (toClaim ! i)))
     \<and> (\<forall>q. q \<notin> fst ` set toClaim \<longrightarrow> map_of (publishedNotes p') q = map_of (publishedNotes p) q)"
proof -
  obtain p1 w1 k1 where loop: "claim_loop a toClaim ((p, w), 0) = ((p1, w1), k1)"
    by (metis prod.exhaust)
  have dist: "distinct (map fst toClaim)"
    unfolding toClaim using keys by (rule distinct_map_filter)
  have agree: "\<forall>(q, nt) \<in> set toClaim. map_of (publishedNotes p) q = Some nt"
    unfolding toClaim using keys by auto
  from claim_loop_correct [OF loop dist agree] obtain X where
    X1: "claim_events (trace w1) = claim_events (trace w) @ X"
    and X2: "list_all2 (\<lambda>(q, nt) (args, outcome).
                 args = (apiKey (settings p), n_slug nt, token_of nt)
                 \<and> map_of (publishedNotes p1) q = Some (note_after_claim nt outcome)) toClaim X"
    and X3: "\<forall>q. q \<notin> fst ` set toClaim \<longrightarrow> map_of (publishedNotes p1) q = map_of (publishedNotes p) q"
    by blast
  have res: "p' = p1 \<and> claim_events (trace w') = claim_events (trace w1)"
  proof (cases "toClaim = []")
    case True
    with loop run key toClaim show ?thesis
      by (simp add: claimAnonymousDocuments_def)
  next
    case False
    with loop run key toClaim show ?thesis
      by (auto simp: claimAnonymousDocuments_def Let_def claim_events_append split: if_splits)
  qed
  with X1 have new: "new_claims w w' = X" by (simp add: new_claims_def)
  from X2 res have all: "list_all2 (\<lambda>(q, nt) (args, outcome).
                 args = (apiKey (settings p), n_slug nt, token_of nt)
                 \<and> map_of (publishedNotes p') q = Some (note_after_claim nt outcome)) toClaim X"
    by simp
  have len: "length X = length toClaim"
    using all by (simp add: list_all2_lengthD)
  have nth: "\<And>i. i < length toClaim \<Longrightarrow>
        fst (X ! i) = (apiKey (settings p), n_slug (snd (toClaim ! i)), token_of (snd (toClaim ! i)))
        \<and> map_of (publishedNotes p') (fst (toClaim ! i))
            = Some (note_after_claim (snd (toClaim ! i)) (snd (X ! i)))"
    using list_all2_nthD [OF all] by (auto simp: split_def)
  have calls: "map fst X = map (\<lambda>(q, nt). (apiKey (settings p), n_slug nt, token_of nt)) toClaim"
    using len nth by (intro nth_equalityI) (simp_all add: split_def)
  have records: "\<forall>i < length toClaim.
          case snd (X ! i) of
            Inr result \<Rightarrow>
              map_of (publishedNotes p') (fst (toClaim ! i))
                = Some \<lparr>n_slug = c_slug result, n_url = c_url result, n_editToken = None,
                        n_publishedAt = n_publishedAt (snd (toClaim ! i))\<rparr>
          | Inl e \<Rightarrow> map_of (publishedNotes p') (fst (toClaim ! i)) = Some (snd (toClaim ! i))"
    using nth by (auto simp: note_after_claim_def claimed_note_def split: sum.splits)
  from calls records X3 res show ?thesis unfolding new by simp
qed

theorem claim_sweep_witness:
  "map fst (new_claims (ex_world (\<lambda>p. Inr []))
       (snd (claimAnonymousDocuments ex_api_claim (ex_plugin ''jb_key'' ex_three_notes, ex_world (\<lambda>p. Inr [])))))
     = [(''jb_key'', ''a'', ''token-a''), (''jb_key'', ''b'', ''token-b'')]
   \<and> map_of (publishedNotes (fst (claimAnonymousDocuments ex_api_claim
         (ex_plugin ''jb_key'' ex_three_notes, ex_world (\<lambda>p. Inr []))))) ''notes/a.md''
       = Some \<lparr>n_slug = ''a'', n_url = ''https://share.jotbird.com/u/a'', n_editToken = None,
               n_publishedAt = ''2026-01-01T00:00:00.000Z''\<rparr>
   \<and> map_of (publishedNotes (fst (claimAnonymousDocuments ex_api_claim
         (ex_plugin ''jb_key'' ex_three_notes, ex_world (\<lambda>p. Inr []))))) ''notes/b.md''
       = Some (ex_note ''b'' (Some ''token-b''))
   \<and> map_of (publishedNotes (fst (claimAnonymousDocuments ex_api_claim
         (ex_plugin ''jb_key'' ex_three_notes, ex_world (\<lambda>p. Inr []))))) ''notes/c.md''
       = Some (ex_note ''c'' None)"
proof -
  let ?p = "ex_plugin ''jb_key'' ex_three_notes"
  let ?wi = "ex_world (\<lambda>p. Inr [])"
  let ?todo = "[(''notes/a.md'', ex_note ''a'' (Some ''token-a'')),
                (''notes/b.md'', ex_note ''b'' (Some ''token-b''))]"
  let ?pf = "fst (claimAnonymousDocuments ex_api_claim (?p, ?wi))"
  let ?wf = "snd (claimAnonymousDocuments ex_api_claim (?p, ?wi))"
  have key: "apiKey (settings ?p) \<noteq> []"
    by (simp add: ex_plugin_def)
  have keys: "distinct (map fst (publishedNotes ?p))"
    by (simp add: ex_plugin_def ex_three_notes_def)
  have toClaim: "?todo = filter (\<lambda>(q, nt). has_token nt) (publishedNotes ?p)"
    by (simp add: ex_plugin_def ex_three_notes_def has_token_def ex_note_def)
  have run: "claimAnonymousDocuments ex_api_claim (?p, ?wi) = (?pf, ?wf)"
    by simp
  have o0: "snd (new_claims ?wi ?wf ! 0)
      = Inr \<lparr>c_ok = True, c_slug = ''a'', c_url = ''https://share.jotbird.com/u/a'',
              c_expiresAt = Some ''2026-05-10T00:00:00.000Z'', c_ttlDays = Some 90\<rparr>"
    by code_simp
  have o1: "snd (new_claims ?wi ?wf ! 1) = Inl (JsError ''Claim: Document not found'')"
    by code_simp
  have c: "''notes/c.md'' \<notin> fst ` set ?todo" by simp
  have pc: "map_of (publishedNotes ?p) ''notes/c.md'' = Some (ex_note ''c'' None)"
    by (simp add: ex_plugin_def ex_three_notes_def)
  note sweep = claim_sweep [OF key keys toClaim run]
  note calls = sweep [THEN conjunct1]
  note records = sweep [THEN conjunct2, THEN conjunct1, rule_format]
  note others = sweep [THEN conjunct2, THEN conjunct2, rule_format]
  have i0: "0 < length ?todo" and i1: "1 < length ?todo" by simp_all
  have ra: "map_of (publishedNotes ?pf) ''notes/a.md''
       = Some \<lparr>n_slug = ''a'', n_url = ''https://share.jotbird.com/u/a'', n_editToken = None,
               n_publishedAt = ''2026-01-01T00:00:00.000Z''\<rparr>"
    using records [OF i0] unfolding o0 by (simp add: ex_note_def)
  have rb: "map_of (publishedNotes ?pf) ''notes/b.md'' = Some (ex_note ''b'' (Some ''token-b''))"
    using records [OF i1] unfolding o1 by simp
  have rc: "map_of (publishedNotes ?pf) ''notes/c.md'' = Some (ex_note ''c'' None)"
    using others [OF c] pc by simp
  from calls ra rb rc show ?thesis
    by (simp add: ex_plugin_def token_of_def ex_note_def)
qed

subsection \<open>The sweep after an upgrade\<close>

lemma sweeps_mirror: "list_all is_mirror_event es \<Longrightarrow> sweeps es = []"
  by (induction es rule: sweeps.induct) auto

lemma extends_sweeps:
  "extends is_mirror_event w w' \<Longrightarrow> sweeps (trace w') = sweeps (trace w)"
  by (auto simp: extends_def sweeps_append sweeps_mirror)

lemma grows_api_sweeps: "grows is_api w w' \<Longrightarrow> sweeps (trace w') = sweeps (trace w)"
  by (auto simp: grows_def sweeps_append sweeps_api)

lemma prepare_sweeps:
  assumes "prepare a file p w0 = (res, w)"
  shows "sweeps (trace w) = sweeps (trace w0)"
proof -
  from prepare_grows [OF assms] obtain es where
    es: "trace w = trace w0 @ es" "list_all is_prepare_event es"
    by (auto simp: grows_def)
  have "sweeps es = []" using es(2)
    by (induction es rule: sweeps.induct) auto
  with es(1) show ?thesis by (simp add: sweeps_append)
qed

lemma writeFrontmatter_mirror:
  "extends is_mirror_event w (writeFrontmatter p file u x t w)"
  by (auto simp: writeFrontmatter_def processFrontMatter_def Let_def extends_def)

lemma refresh_loop_mirror:
  "refresh_loop p x ns (u, w) = (u', w') \<Longrightarrow> extends is_mirror_event w w'"
proof (induction ns arbitrary: u w)
  case Nil
  then show ?case by simp
next
  case (Cons kv ns)
  obtain q nt where kv: "kv = (q, nt)" by (cases kv)
  show ?case using Cons.prems unfolding kv
    by (auto split: if_splits option.splits abstract_file.splits
             dest!: Cons.IH intro: extends_trans [OF writeFrontmatter_mirror])
qed

lemma refreshProExpiration_sweeps:
  "sweeps (trace (refreshProExpiration p x w)) = sweeps (trace w) @ [x]"
proof (cases "storeFrontmatter (settings p)")
  case False
  then show ?thesis by (simp add: refreshProExpiration_def Let_def sweeps_append)
next
  case True
  obtain u w' where l: "refresh_loop p x (publishedNotes p) (0, emit (Sweep x) w) = (u, w')"
    by (cases "refresh_loop p x (publishedNotes p) (0, emit (Sweep x) w)")
  have "sweeps (trace w') = sweeps (trace w) @ [x]"
    using extends_sweeps [OF refresh_loop_mirror [OF l]] by (simp add: sweeps_append)
  with True l show ?thesis
    by (simp add: refreshProExpiration_def Let_def sweeps_append)
qed

lemma record_publish_sweeps:
  "sweeps (trace (snd (record_publish file existing result retried (p, w))))
     = sweeps (trace w) @ (if falsy (r_ttlDays result) \<and> \<not> proRefreshDone p then [f_path file] else [])"
  by (simp add: record_publish_def Let_def split_def sweeps_append refreshProExpiration_sweeps
                extends_sweeps [OF writeFrontmatter_mirror])

lemma record_publish_flag:
  "proRefreshDone (fst (record_publish file existing result retried (p, w)))
     = (proRefreshDone p \<or> falsy (r_ttlDays result))"
  by (auto simp: record_publish_def Let_def split_def)

lemma remote_publish_sweeps:
  "remote_publish a p markdown title existing w = (res, w') \<Longrightarrow> sweeps (trace w') = sweeps (trace w)"
  by (rule grows_api_sweeps [OF remote_publish_grows])

lemma publishFile_cases:
  obtains (unread) e w1 where "prepare a file p w = (Inl e, w1)"
      "publishFile a file (p, w) = (p, emit (Notice (Failed (message e))) w1)"
  | (failed) markdown title w1 e w2 where "prepare a file p w = (Inr (markdown, title), w1)"
      "remote_publish a p markdown title (map_of (publishedNotes p) (f_path file)) w1 = (Inl e, w2)"
      "publishFile a file (p, w) = (p, emit (Notice (Failed (message e))) w2)"
  | (published) markdown title w1 result retried w2 where
      "prepare a file p w = (Inr (markdown, title), w1)"
      "remote_publish a p markdown title (map_of (publishedNotes p) (f_path file)) w1
         = (Inr (result, retried), w2)"
      "publishFile a file (p, w)
         = record_publish file (map_of (publishedNotes p) (f_path file)) result retried (p, w2)"
proof -
  obtain r w1 where pr: "prepare a file p w = (r, w1)" by (cases "prepare a file p w")
  show thesis
  proof (cases r)
    case (Inl e)
    with pr unread show ?thesis by (simp add: publishFile_def)
  next
    case (Inr mt)
    obtain markdown title where mt: "mt = (markdown, title)" by (cases mt)
    obtain r2 w2 where rp: "remote_publish a p markdown title (map_of (publishedNotes p) (f_path file)) w1 = (r2, w2)"
      by (cases "remote_publish a p markdown title (map_of (publishedNotes p) (f_path file)) w1")
    show ?thesis
    proof (cases r2)
      case (Inl e)
      with pr Inr mt rp failed show ?thesis by (simp add: publishFile_failed)
    next
      case (Inr rr)
      obtain result retried where "rr = (result, retried)" by (cases rr)
      with pr \<open>r = Inr mt\<close> mt rp Inr published show ?thesis by (simp add: publishFile_succeeded)
    qed
  qed
qed

lemma publishFile_sweeps:
  "(proRefreshDone p \<longrightarrow>
      proRefreshDone (fst (publishFile a f (p, w)))
      \<and> sweeps (trace (snd (publishFile a f (p, w)))) = sweeps (trace w))
   \<and> (\<not> proRefreshDone p \<longrightarrow>
      (\<not> proRefreshDone (fst (publishFile a f (p, w)))
       \<and> sweeps (trace (snd (publishFile a f (p, w)))) = sweeps (trace w))
      \<or> (proRefreshDone (fst (publishFile a f (p, w)))
          \<and> sweeps (trace (snd (publishFile a f (p, w)))) = sweeps (trace w) @ [f_path f]))"
proof (cases rule: publishFile_cases [of a f p w])
  case (unread e w1)
  with prepare_sweeps [OF unread(1)] show ?thesis by (simp add: sweeps_append)
next
  case (failed markdown title w1 e w2)
  with prepare_sweeps [OF failed(1)] remote_publish_sweeps [OF failed(2)]
  show ?thesis by (simp add: sweeps_append)
next
  case (published markdown title w1 result retried w2)
  with prepare_sweeps [OF published(1)] remote_publish_sweeps [OF published(2)]
  show ?thesis by (simp add: record_publish_sweeps record_publish_flag)
qed

lemma checkProStatus_quiet:
  "sweeps (trace (snd (checkProStatus a (p, w)))) = sweeps (trace w)
   \<and> proRefreshDone (fst (checkProStatus a (p, w))) = proRefreshDone p
   \<and> frontmatter (snd (checkProStatus a (p, w))) = frontmatter w"
  by (auto simp: checkProStatus_def call_listDocuments_def sweeps_append
           split: prod.splits sum.splits)

lemma run_ops_done:
  "proRefreshDone (fst st) \<Longrightarrow>
     proRefreshDone (fst (run_ops a ops st))
     \<and> sweeps (trace (snd (run_ops a ops st))) = sweeps (trace (snd st))"
proof (induction ops arbitrary: st)
  case Nil
  then show ?case by simp
next
  case (Cons op ops)
  obtain p w where st: "st = (p, w)" by (cases st)
  show ?case
  proof (cases op)
    case (Publish f)
    from Cons.prems st publishFile_sweeps [of p a f w]
    have "proRefreshDone (fst (publishFile a f st))"
      "sweeps (trace (snd (publishFile a f st))) = sweeps (trace (snd st))"
      by simp_all
    with Cons.IH [of "publishFile a f st"] Publish show ?thesis by simp
  next
    case StatusCheck
    from Cons.prems st checkProStatus_quiet [of a p w]
    have "proRefreshDone (fst (checkProStatus a st))"
      "sweeps (trace (snd (checkProStatus a st))) = sweeps (trace (snd st))"
      by simp_all
    with Cons.IH [of "checkProStatus a st"] StatusCheck show ?thesis by simp
  qed
qed

lemma run_ops_once:
  "length (sweeps (trace (snd (run_ops a ops st)))) \<le> Suc (length (sweeps (trace (snd st))))"
proof (induction ops arbitrary: st)
  case Nil
  then show ?case by simp
next
  case (Cons op ops)
  obtain p w where st: "st = (p, w)" by (cases st)
  show ?case
  proof (cases op)
    case StatusCheck
    from checkProStatus_quiet [of a p w] st
    have "sweeps (trace (snd (checkProStatus a st))) = sweeps (trace (snd st))" by simp
    with Cons.IH [of "checkProStatus a st"] StatusCheck show ?thesis by simp
  next
    case (Publish f)
    let ?st = "publishFile a f st"
    from publishFile_sweeps [of p a f w] st
    consider "sweeps (trace (snd ?st)) = sweeps (trace (snd st))"
      | "proRefreshDone (fst ?st)" "sweeps (trace (snd ?st)) = sweeps (trace (snd st)) @ [f_path f]"
      by auto
    then show ?thesis
    proof cases
      case 1
      with Cons.IH [of ?st] Publish show ?thesis by simp
    next
      case 2
      with run_ops_done [OF 2(1), of a ops] Publish show ?thesis by simp
    qed
  qed
qed

lemma is_file_iff: "is_file w q \<longleftrightarrow> (\<exists>file. getAbstractFileByPath w q = Some (AFile file))"
  by (auto simp: is_file_def getAbstractFileByPath_def split: option.splits entry.splits)

lemma is_file_cong: "entries w' = entries w \<Longrightarrow> is_file w' = is_file w"
  by (rule ext) (simp add: is_file_def)

lemma writeFrontmatter_failed:
  "frontmatter_fails w (f_path file)
   \<Longrightarrow> frontmatter (writeFrontmatter p file u x t w) = frontmatter w"
  by (simp add: writeFrontmatter_def processFrontMatter_def Let_def)

lemma refresh_loop_never:
  assumes "refresh_loop p x ns (u, w) = (u', w')"
    and "storeFrontmatter (settings p)"
    and "(q \<in> fst ` set ns \<and> q \<noteq> x \<and> is_file w q \<and> \<not> frontmatter_fails w q)
         \<or> map_of (frontmatter w q) ''jotbird_expires'' = Some ''never''"
  shows "map_of (frontmatter w' q) ''jotbird_expires'' = Some ''never''"
  using assms
proof (induction ns arbitrary: u w)
  case Nil
  then show ?case by simp
next
  case (Cons kv ns)
  obtain q0 nt where kv: "kv = (q0, nt)" by (cases kv)
  show ?case
  proof (cases "q0 = x")
    case True
    with Cons.prems(1) have l: "refresh_loop p x ns (u, w) = (u', w')"
      unfolding kv by simp
    from Cons.prems(3) True
    have "(q \<in> fst ` set ns \<and> q \<noteq> x \<and> is_file w q \<and> \<not> frontmatter_fails w q)
         \<or> map_of (frontmatter w q) ''jotbird_expires'' = Some ''never''"
      unfolding kv by auto
    from Cons.IH [OF l Cons.prems(2) this] show ?thesis .
  next
    case False
    show ?thesis
    proof (cases "is_file w q0")
      case no_file: False
      then have "\<And>f. getAbstractFileByPath w q0 \<noteq> Some (AFile f)"
        by (simp add: is_file_iff)
      with Cons.prems(1) False have l: "refresh_loop p x ns (u, w) = (u', w')"
        unfolding kv by (auto split: option.splits abstract_file.splits)
      from Cons.prems(3) no_file
      have "(q \<in> fst ` set ns \<and> q \<noteq> x \<and> is_file w q \<and> \<not> frontmatter_fails w q)
         \<or> map_of (frontmatter w q) ''jotbird_expires'' = Some ''never''"
        unfolding kv by auto
      from Cons.IH [OF l Cons.prems(2) this] show ?thesis .
    next
      case True
      then obtain f where f: "getAbstractFileByPath w q0 = Some (AFile f)"
        by (auto simp: is_file_iff)
      then have fp: "f_path f = q0" by (rule getAbstractFileByPath_path)
      let ?w1 = "writeFrontmatter p f (n_url nt) [] (Some 0) w"
      from Cons.prems(1) False f have l: "refresh_loop p x ns (Suc u, ?w1) = (u', w')"
        unfolding kv by simp
      have same: "is_file ?w1 = is_file w" "frontmatter_fails ?w1 = frontmatter_fails w"
        by (rule is_file_cong) simp_all
      have "(q \<in> fst ` set ns \<and> q \<noteq> x \<and> is_file ?w1 q \<and> \<not> frontmatter_fails ?w1 q)
         \<or> map_of (frontmatter ?w1 q) ''jotbird_expires'' = Some ''never''"
      proof (cases "q = q0")
        case other: False
        then have "frontmatter ?w1 q = frontmatter w q"
          using fp by (simp add: writeFrontmatter_other)
        with Cons.prems(3) other show ?thesis unfolding kv same by auto
      next
        case here: True
        show ?thesis
        proof (cases "frontmatter_fails w q0")
          case True
          then have "frontmatter ?w1 = frontmatter w"
            using fp by (simp add: writeFrontmatter_failed)
          with Cons.prems(3) here True show ?thesis unfolding kv same by auto
        next
          case False
          then have "frontmatter ?w1 q0 = frontmatter_mutator (n_url nt) [] (Some 0) (frontmatter w q0)"
            using fp Cons.prems(2) writeFrontmatter_written [of p w f] by simp
          then show ?thesis
            using here by (simp add: frontmatter_mutator_expires falsy_def)
        qed
      qed
      from Cons.IH [OF l Cons.prems(2) this] show ?thesis .
    qed
  qed
qed

lemma refreshProExpiration_never:
  assumes "storeFrontmatter (settings p)"
    and "q \<in> fst ` set (publishedNotes p)" and "q \<noteq> x"
    and "is_file w q" and "\<not> frontmatter_fails w q"
  shows "map_of (frontmatter (refreshProExpiration p x w) q) ''jotbird_expires'' = Some ''never''"
proof -
  let ?w = "emit (Sweep x) w"
  obtain u w' where l: "refresh_loop p x (publishedNotes p) (0, ?w) = (u, w')"
    by (cases "refresh_loop p x (publishedNotes p) (0, ?w)")
  have "is_file ?w = is_file w"
    by (rule is_file_cong) simp
  with assms have "(q \<in> fst ` set (publishedNotes p) \<and> q \<noteq> x \<and> is_file ?w q \<and> \<not> frontmatter_fails ?w q)
         \<or> map_of (frontmatter ?w q) ''jotbird_expires'' = Some ''never''"
    by simp
  from refresh_loop_never [OF l assms(1) this] assms(1) l show ?thesis
    by (simp add: refreshProExpiration_def Let_def)
qed

lemma update_keys_subset: "q \<in> fst ` set al \<Longrightarrow> q \<in> fst ` set (AList.update k v al)"
  by (induction al) auto

lemma record_publish_never:
  assumes "storeFrontmatter (settings p)" and "falsy (r_ttlDays result)" and "\<not> proRefreshDone p"
    and "q \<in> fst ` set (publishedNotes p)" and "q \<noteq> f_path file"
    and "is_file w q" and "\<not> frontmatter_fails w q"
  shows "map_of (frontmatter (snd (record_publish file existing result retried (p, w))) q)
           ''jotbird_expires'' = Some ''never''"
proof -
  let ?p1 = "p\<lparr>publishedNotes :=
                  AList.update (f_path file)
                    \<lparr>n_slug = r_slug result, n_url = r_url result,
                     n_editToken = r_editToken result, n_publishedAt = clock w\<rparr>
                    (publishedNotes p)\<rparr>"
  let ?w2 = "writeFrontmatter ?p1 file (r_url result)
                (case r_expiresAt result of None \<Rightarrow> [] | Some x \<Rightarrow> x) (r_ttlDays result)
                (saveSettings ?p1 w)"
  have "map_of (frontmatter (refreshProExpiration (?p1\<lparr>proRefreshDone := True\<rparr>) (f_path file) ?w2) q)
          ''jotbird_expires'' = Some ''never''"
  proof (rule refreshProExpiration_never)
    show "is_file ?w2 q"
      using assms(6) is_file_cong [of ?w2 w] by simp
  qed (use assms in \<open>simp_all add: update_keys_subset\<close>)
  with assms(2,3) show ?thesis
    by (simp add: record_publish_def Let_def split_def)
qed

text \<open>The upgrade callback: its status check changes neither the documents nor the
  records, and the sweep follows whenever the tier is then the permanent one.\<close>

lemma checkProStatus_host:
  "entries (snd (checkProStatus a (p, w))) = entries w
   \<and> frontmatter_fails (snd (checkProStatus a (p, w))) = frontmatter_fails w
   \<and> settings (fst (checkProStatus a (p, w))) = settings p
   \<and> publishedNotes (fst (checkProStatus a (p, w))) = publishedNotes p"
  by (auto simp: checkProStatus_def call_listDocuments_def split: prod.splits sum.splits)

lemma handleProUpgrade_sweeps:
  "sweeps (trace (snd (handleProUpgrade a (p, w))))
     = sweeps (trace w) @ (if isPro (fst (checkProStatus a (p, w))) then [[]] else [])"
proof -
  obtain p1 w1 where c: "checkProStatus a (p, w) = (p1, w1)" by (cases "checkProStatus a (p, w)")
  from checkProStatus_quiet [of a p w] c have "sweeps (trace w1) = sweeps (trace w)" by simp
  with c show ?thesis
    by (simp add: handleProUpgrade_def sweeps_append refreshProExpiration_sweeps)
qed

lemma handleProUpgrade_never:
  assumes "isPro (fst (checkProStatus a (p, w)))"
  shows "proRefreshDone (fst (handleProUpgrade a (p, w)))"
    and "storeFrontmatter (settings p) \<Longrightarrow> q \<in> fst ` set (publishedNotes p) \<Longrightarrow> q \<noteq> []
         \<Longrightarrow> is_file w q \<Longrightarrow> \<not> frontmatter_fails w q
         \<Longrightarrow> map_of (frontmatter (snd (handleProUpgrade a (p, w))) q) ''jotbird_expires''
               = Some ''never''"
proof -
  obtain p1 w1 where c: "checkProStatus a (p, w) = (p1, w1)" by (cases "checkProStatus a (p, w)")
  from assms c have pro: "isPro p1" by simp
  with c show "proRefreshDone (fst (handleProUpgrade a (p, w)))"
    by (simp add: handleProUpgrade_def)
  assume a: "storeFrontmatter (settings p)" "q \<in> fst ` set (publishedNotes p)" "q \<noteq> []"
    "is_file w q" "\<not> frontmatter_fails w q"
  from checkProStatus_host [of a p w] c
  have host: "entries w1 = entries w" "frontmatter_fails w1 = frontmatter_fails w"
    "settings p1 = settings p" "publishedNotes p1 = publishedNotes p"
    by simp_all
  have files: "is_file w1 = is_file w"
    by (rule is_file_cong) (rule host(1))
  have "map_of (frontmatter (refreshProExpiration (p1\<lparr>proRefreshDone := True\<rparr>) [] w1) q)
          ''jotbird_expires'' = Some ''never''"
    by (rule refreshProExpiration_never) (use a host files in simp_all)
  with c pro show "map_of (frontmatter (snd (handleProUpgrade a (p, w))) q) ''jotbird_expires''
               = Some ''never''"
    by (simp add: handleProUpgrade_def)
qed

text \<open>
  Claim C6, as amended.  A status check never triggers the sweep: it leaves the one-shot
  flag and every header as they are.  A successful publish triggers the sweep exactly
  when its response has ttlDays null or 0 and the flag is not yet set, and sets the flag;
  the sweep then (with metadata mirroring enabled) rewrites the expiration of every other
  tracked record whose path is a document with a writable header to "never".  So in any
  sequence of publishes and status checks the sweep runs at most once, and not at all
  when the flag was already set (it is loaded from the stored state).  The upgrade
  callback sweeps each time its status check leaves the permanent tier observed, whatever
  the flag: it sets the flag and the sweep covers every tracked record.
\<close>

theorem upgrade_sweep:
  fixes a :: "'srv api"
  shows
    "sweeps (trace (snd (checkProStatus a (p, w)))) = sweeps (trace w)
     \<and> proRefreshDone (fst (checkProStatus a (p, w))) = proRefreshDone p
     \<and> frontmatter (snd (checkProStatus a (p, w))) = frontmatter w
     \<and> (\<forall>markdown title w1 result retried w2.
          prepare a file p w = (Inr (markdown, title), w1)
          \<and> remote_publish a p markdown title (map_of (publishedNotes p) (f_path file)) w1
              = (Inr (result, retried), w2)
          \<longrightarrow> sweeps (trace (snd (publishFile a file (p, w))))
                = sweeps (trace w)
                  @ (if (r_ttlDays result = None \<or> r_ttlDays result = Some 0) \<and> \<not> proRefreshDone p
                     then [f_path file] else [])
              \<and> proRefreshDone (fst (publishFile a file (p, w)))
                  = (proRefreshDone p \<or> r_ttlDays result = None \<or> r_ttlDays result = Some 0)
              \<and> ((r_ttlDays result = None \<or> r_ttlDays result = Some 0) \<and> \<not> proRefreshDone p
                  \<and> storeFrontmatter (settings p)
                  \<longrightarrow> (\<forall>q \<in> fst ` set (publishedNotes p).
                         q \<noteq> f_path file \<and> is_file w q \<and> \<not> frontmatter_fails w q
                         \<longrightarrow> map_of (frontmatter (snd (publishFile a file (p, w))) q) ''jotbird_expires''
                               = Some ''never'')))
     \<and> (proRefreshDone p \<longrightarrow> sweeps (trace (snd (run_ops a ops (p, w)))) = sweeps (trace w))
     \<and> length (sweeps (trace (snd (run_ops a ops (p, w))))) \<le> Suc (length (sweeps (trace w)))
     \<and> sweeps (trace (snd (handleProUpgrade a (p, w))))
          = sweeps (trace w) @ (if isPro (fst (checkProStatus a (p, w))) then [[]] else [])
     \<and> (isPro (fst (checkProStatus a (p, w)))
          \<longrightarrow> proRefreshDone (fst (handleProUpgrade a (p, w)))
              \<and> (storeFrontmatter (settings p)
                  \<longrightarrow> (\<forall>q \<in> fst ` set (publishedNotes p).
                         q \<noteq> [] \<and> is_file w q \<and> \<not> frontmatter_fails w q
                         \<longrightarrow> map_of (frontmatter (snd (handleProUpgrade a (p, w))) q) ''jotbird_expires''
                               = Some ''never'')))"
proof -
  have publish: "sweeps (trace (snd (publishFile a file (p, w))))
                = sweeps (trace w)
                  @ (if (r_ttlDays result = None \<or> r_ttlDays result = Some 0) \<and> \<not> proRefreshDone p
                     then [f_path file] else [])
              \<and> proRefreshDone (fst (publishFile a file (p, w)))
                  = (proRefreshDone p \<or> r_ttlDays result = None \<or> r_ttlDays result = Some 0)
              \<and> ((r_ttlDays result = None \<or> r_ttlDays result = Some 0) \<and> \<not> proRefreshDone p
                  \<and> storeFrontmatter (settings p)
                  \<longrightarrow> (\<forall>q \<in> fst ` set (publishedNotes p).
                         q \<noteq> f_path file \<and> is_file w q \<and> \<not> frontmatter_fails w q
                         \<longrightarrow> map_of (frontmatter (snd (publishFile a file (p, w))) q) ''jotbird_expires''
                               = Some ''never''))"
    if prepared: "prepare a file p w = (Inr (markdown, title), w1)"
      and published: "remote_publish a p markdown title (map_of (publishedNotes p) (f_path file)) w1
              = (Inr (result, retried), w2)"
    for markdown title w1 result retried w2
  proof -
    note pf = publishFile_succeeded [OF prepared published]
    have host: "entries w2 = entries w" "frontmatter_fails w2 = frontmatter_fails w"
      using prepare_grows [OF prepared] remote_publish_grows [OF published]
      by (simp_all add: grows_def same_host_def)
    have files: "is_file w2 = is_file w"
      by (rule is_file_cong) (rule host(1))
    have tr: "sweeps (trace w2) = sweeps (trace w)"
      using prepare_sweeps [OF prepared] remote_publish_sweeps [OF published] by simp
    have never: "map_of (frontmatter (snd (publishFile a file (p, w))) q) ''jotbird_expires'' = Some ''never''"
      if "falsy (r_ttlDays result)" "\<not> proRefreshDone p" "storeFrontmatter (settings p)"
        "q \<in> fst ` set (publishedNotes p)" "q \<noteq> f_path file" "is_file w q" "\<not> frontmatter_fails w q"
      for q
      unfolding pf using that by (intro record_publish_never) (simp_all add: files host(2))
    show ?thesis
      unfolding pf record_publish_sweeps record_publish_flag tr
      using never unfolding pf by (auto simp: falsy_def)
  qed
  have set_flag: "proRefreshDone p \<longrightarrow> sweeps (trace (snd (run_ops a ops (p, w)))) = sweeps (trace w)"
    using run_ops_done [of "(p, w)" a ops] by simp
  have once: "length (sweeps (trace (snd (run_ops a ops (p, w))))) \<le> Suc (length (sweeps (trace w)))"
    using run_ops_once [of a ops "(p, w)"] by simp
  have upgrade: "isPro (fst (checkProStatus a (p, w)))
          \<longrightarrow> proRefreshDone (fst (handleProUpgrade a (p, w)))
              \<and> (storeFrontmatter (settings p)
                  \<longrightarrow> (\<forall>q \<in> fst ` set (publishedNotes p).
                         q \<noteq> [] \<and> is_file w q \<and> \<not> frontmatter_fails w q
                         \<longrightarrow> map_of (frontmatter (snd (handleProUpgrade a (p, w))) q) ''jotbird_expires''
                               = Some ''never''))"
    using handleProUpgrade_never [of a p w] by blast
  from publish checkProStatus_quiet [of a p w] set_flag once
  have "sweeps (trace (snd (checkProStatus a (p, w)))) = sweeps (trace w)
     \<and> proRefreshDone (fst (checkProStatus a (p, w))) = proRefreshDone p
     \<and> frontmatter (snd (checkProStatus a (p, w))) = frontmatter w
     \<and> (\<forall>markdown title w1 result retried w2.
          prepare a file p w = (Inr (markdown, title), w1)
          \<and> remote_publish a p markdown title (map_of (publishedNotes p) (f_path file)) w1
              = (Inr (result, retried), w2)
          \<longrightarrow> sweeps (trace (snd (publishFile a file (p, w))))
                = sweeps (trace w)
                  @ (if (r_ttlDays result = None \<or> r_ttlDays result = Some 0) \<and> \<not> proRefreshDone p
                     then [f_path file] else [])
              \<and> proRefreshDone (fst (publishFile a file (p, w)))
                  = (proRefreshDone p \<or> r_ttlDays result = None \<or> r_ttlDays result = Some 0)
              \<and> ((r_ttlDays result = None \<or> r_ttlDays result = Some 0) \<and> \<not> proRefreshDone p
                  \<and> storeFrontmatter (settings p)
                  \<longrightarrow> (\<forall>q \<in> fst ` set (publishedNotes p).
                         q \<noteq> f_path file \<and> is_file w q \<and> \<not> frontmatter_fails w q
                         \<longrightarrow> map_of (frontmatter (snd (publishFile a file (p, w))) q) ''jotbird_expires''
                               = Some ''never'')))
     \<and> (proRefreshDone p \<longrightarrow> sweeps (trace (snd (run_ops a ops (p, w)))) = sweeps (trace w))
     \<and> length (sweeps (trace (snd (run_ops a ops (p, w))))) \<le> Suc (length (sweeps (trace w)))"
    by blast
  with handleProUpgrade_sweeps [of a p w] upgrade
  show ?thesis by (elim conjE, intro conjI) assumption+
qed


theorem upgrade_sweep_witness:
  "sweeps (trace (snd (publishFile ex_api_pro (ex_file ''notes/'' ''a'')
       (ex_plugin ''jb_key'' [(''notes/b.md'', ex_note ''b'' None)], ex_vault)))) = [''notes/a.md'']
   \<and> proRefreshDone (fst (publishFile ex_api_pro (ex_file ''notes/'' ''a'')
       (ex_plugin ''jb_key'' [(''notes/b.md'', ex_note ''b'' None)], ex_vault)))
   \<and> map_of (frontmatter (snd (publishFile ex_api_pro (ex_file ''notes/'' ''a'')
       (ex_plugin ''jb_key'' [(''notes/b.md'', ex_note ''b'' None)], ex_vault))) ''notes/b.md'')
       ''jotbird_expires'' = Some ''never''
   \<and> length (sweeps (trace (snd (run_ops ex_api_pro
       [Publish (ex_file ''notes/'' ''a''), StatusCheck, Publish (ex_file ''notes/'' ''a'')]
       (ex_plugin ''jb_key'' [(''notes/b.md'', ex_note ''b'' None)], ex_vault))))) \<le> 1
   \<and> sweeps (trace (snd (run_ops ex_api_pro
       [Publish (ex_file ''notes/'' ''a''), StatusCheck, Publish (ex_file ''notes/'' ''a'')]
       (loadSettings ''device-2'' ex_stored, ex_stored)))) = []
   \<and> sweeps (trace (snd (handleProUpgrade ex_api_pro
       ((ex_plugin ''jb_key'' [(''notes/b.md'', ex_note ''b'' None)])\<lparr>proRefreshDone := True\<rparr>,
        ex_vault)))) = [[]]
   \<and> map_of (frontmatter (snd (handleProUpgrade ex_api_pro
       ((ex_plugin ''jb_key'' [(''notes/b.md'', ex_note ''b'' None)])\<lparr>proRefreshDone := True\<rparr>,
        ex_vault))) ''notes/b.md'') ''jotbird_expires'' = Some ''never''"
proof -
  let ?a = "ex_api_pro"
  let ?f = "ex_file ''notes/'' ''a''"
  let ?p = "ex_plugin ''jb_key'' [(''notes/b.md'', ex_note ''b'' None)]"
  let ?md = "''# a'' @ [LF, LF] @ ''Hello''"
  let ?wp = "snd (prepare ?a ?f ?p ex_vault)"
  let ?wx = "snd (remote_publish ?a ?p ?md ''a'' (map_of (publishedNotes ?p) (f_path ?f)) ?wp)"
  let ?ops = "[Publish ?f, StatusCheck, Publish ?f]"
  have fp: "f_path ?f = ''notes/a.md''" by (simp add: ex_file_def)
  have "fst (prepare ?a ?f ?p ex_vault) = Inr (?md, ''a'')" by code_simp
  then have prepared: "prepare ?a ?f ?p ex_vault = (Inr (?md, ''a''), ?wp)"
    by (simp add: prod_eq_iff)
  have published: "remote_publish ?a ?p ?md ''a'' (map_of (publishedNotes ?p) (f_path ?f)) ?wp
                   = (Inr (ex_response ''fresh'' None, False), ?wx)"
    by (simp add: prod_eq_iff remote_publish_def publish_call_def call_publishNote_def
                  ex_api_pro_def ex_api_expired_def ex_plugin_def ex_file_def
                  DEFAULT_SETTINGS_def split_def)
  have ttl: "r_ttlDays (ex_response ''fresh'' None) = None"
    by (simp add: ex_response_def)
  have flag: "\<not> proRefreshDone ?p" and mirroring: "storeFrontmatter (settings ?p)"
    by (simp_all add: ex_plugin_def DEFAULT_SETTINGS_def)
  have tracked: "''notes/b.md'' \<in> fst ` set (publishedNotes ?p)"
    by (simp add: ex_plugin_def)
  have other: "''notes/b.md'' \<noteq> f_path ?f \<and> is_file ex_vault ''notes/b.md''
               \<and> \<not> frontmatter_fails ex_vault ''notes/b.md''"
    by (simp add: ex_file_def is_file_def ex_vault_def ex_world_def)
  have empty: "sweeps (trace ex_vault) = []" "sweeps (trace ex_stored) = []"
    by (simp_all add: ex_stored_def ex_vault_def ex_world_def)
  have stored: "proRefreshDone (loadSettings ''device-2'' ex_stored)"
    by (simp add: loadSettings_def ex_stored_def)
  note sweep = upgrade_sweep [of ?a ?p ex_vault ?f ?ops]
  note publish = sweep [THEN conjunct2, THEN conjunct2, THEN conjunct2, THEN conjunct1,
                        rule_format, OF conjI, OF prepared published]
  note once = sweep [THEN conjunct2, THEN conjunct2, THEN conjunct2, THEN conjunct2, THEN conjunct2,
                     THEN conjunct1]
  note later = upgrade_sweep [of ?a "loadSettings ''device-2'' ex_stored" ex_stored ?f ?ops,
                 THEN conjunct2, THEN conjunct2, THEN conjunct2, THEN conjunct2, THEN conjunct1,
                 rule_format, OF stored]
  from publish [THEN conjunct1] ttl flag empty fp
  have s: "sweeps (trace (snd (publishFile ?a ?f (?p, ex_vault)))) = [''notes/a.md'']"
    by simp
  from publish [THEN conjunct2, THEN conjunct1] ttl
  have d: "proRefreshDone (fst (publishFile ?a ?f (?p, ex_vault)))"
    by simp
  from publish [THEN conjunct2, THEN conjunct2, rule_format, OF _ tracked other] ttl flag mirroring
  have n: "map_of (frontmatter (snd (publishFile ?a ?f (?p, ex_vault))) ''notes/b.md'')
       ''jotbird_expires'' = Some ''never''"
    by simp
  from once empty
  have o: "length (sweeps (trace (snd (run_ops ?a ?ops (?p, ex_vault))))) \<le> 1"
    by simp
  from later empty
  have l: "sweeps (trace (snd (run_ops ?a ?ops (loadSettings ''device-2'' ex_stored, ex_stored)))) = []"
    by simp
  let ?q = "?p\<lparr>proRefreshDone := True\<rparr>"
  have observed: "isPro (fst (checkProStatus ?a (?q, ex_vault)))" by code_simp
  have tracked': "''notes/b.md'' \<in> fst ` set (publishedNotes ?q)"
    by (simp add: ex_plugin_def)
  have other': "''notes/b.md'' \<noteq> [] \<and> is_file ex_vault ''notes/b.md''
               \<and> \<not> frontmatter_fails ex_vault ''notes/b.md''"
    using other by simp
  have mirroring': "storeFrontmatter (settings ?q)"
    using mirroring by simp
  note again = upgrade_sweep [of ?a ?q ex_vault ?f ?ops,
                 THEN conjunct2, THEN conjunct2, THEN conjunct2, THEN conjunct2, THEN conjunct2,
                 THEN conjunct2]
  from again [THEN conjunct1] observed empty
  have u: "sweeps (trace (snd (handleProUpgrade ?a (?q, ex_vault)))) = [[]]"
    by simp
  from again [THEN conjunct2, rule_format, OF observed, THEN conjunct2, rule_format,
              OF mirroring' tracked' other']
  have v: "map_of (frontmatter (snd (handleProUpgrade ?a (?q, ex_vault))) ''notes/b.md'')
             ''jotbird_expires'' = Some ''never''" .
  from s d n o l u v show ?thesis by simp
qed

text \<open>
  Claim C6 as stated fails.  A status check that observes the permanent tier sets
  \<open>isPro\<close> and does nothing else: no sweep, the flag stays unset, the header of the
  tracked document is not rewritten.  The sweep is not limited to one per session: the
  upgrade callback, which runs a status check and then the sweep, sweeps each time it
  observes the permanent tier.  And in a session loaded from a state in which the flag is
  stored as set, the first publish that observes the permanent tier (\<open>ttlDays\<close> is null)
  succeeds without a sweep.
\<close>

theorem upgrade_sweep_counterexample:
  "isPro (fst (checkProStatus ex_api_pro
       (ex_plugin ''jb_key'' [(''notes/b.md'', ex_note ''b'' None)], ex_vault)))
   \<and> sweeps (trace (snd (checkProStatus ex_api_pro
       (ex_plugin ''jb_key'' [(''notes/b.md'', ex_note ''b'' None)], ex_vault)))) = []
   \<and> \<not> proRefreshDone (fst (checkProStatus ex_api_pro
       (ex_plugin ''jb_key'' [(''notes/b.md'', ex_note ''b'' None)], ex_vault)))
   \<and> frontmatter (snd (checkProStatus ex_api_pro
       (ex_plugin ''jb_key'' [(''notes/b.md'', ex_note ''b'' None)], ex_vault))) ''notes/b.md'' = []
   \<and> sweeps (trace (snd (handleProUpgrade ex_api_pro (handleProUpgrade ex_api_pro
       (ex_plugin ''jb_key'' [(''notes/b.md'', ex_note ''b'' None)], ex_vault))))) = [[], []]
   \<and> map_of (publishedNotes (fst (publishFile ex_api_pro (ex_file ''notes/'' ''a'')
       (loadSettings ''device-2'' ex_stored, ex_stored)))) ''notes/a.md''
       = Some \<lparr>n_slug = ''fresh'', n_url = ''https://share.jotbird.com/fresh'', n_editToken = None,
               n_publishedAt = ''2026-02-01T00:00:00.000Z''\<rparr>
   \<and> r_ttlDays (ex_response ''fresh'' None) = None
   \<and> sweeps (trace (snd (publishFile ex_api_pro (ex_file ''notes/'' ''a'')
       (loadSettings ''device-2'' ex_stored, ex_stored)))) = []
   \<and> frontmatter (snd (publishFile ex_api_pro (ex_file ''notes/'' ''a'')
       (loadSettings ''device-2'' ex_stored, ex_stored))) ''notes/b.md'' = []"
  by code_simp

text \<open>\<open>Disconnect\<close> unsets the flag, so that a later publish on the permanent tier sweeps
  again.\<close>

lemma disconnect_resets_flag: "\<not> proRefreshDone (fst (disconnect (p, w)))"
  by (simp add: disconnect_def Let_def)

end
